theory Spec2Isabelle
  imports Complex_Main "HOL-Library.Log_Nat" "HOL-Library.AList"
begin

section \<open>Python values: exceptions, integers and floats\<close>

text \<open>
  The quoting code of \<^verbatim>\<open>cardex/dexs/abstract_classes.py\<close> computes on Python integers
  (unbounded) and Python floats (IEEE 754 binary64). Every exception the code can raise is
  a value of \<open>error\<close>; a computation returns \<open>error + 'a\<close>, with \<open>Inl\<close> for the exception.
\<close>

datatype error =
    AssertionError string
  | ValueError string
  | ZeroDivisionError
  | OverflowError
  | IndexError

definition rbind :: "error + 'a \<Rightarrow> ('a \<Rightarrow> error + 'b) \<Rightarrow> error + 'b" where
  "rbind m f = (case m of Inl e \<Rightarrow> Inl e | Inr x \<Rightarrow> f x)"

text \<open>
  A float is a finite binary64 value (kept as the rational it denotes), an infinity or a
  NaN. The sign of a zero is not tracked: the code modelled here cannot observe it
  (division by either zero raises, comparisons and \<^verbatim>\<open>int()\<close> treat both alike).
\<close>

datatype pyfloat = Finite rat | PosInf | NegInf | NaN

datatype pynum = PInt int | PFloat pyfloat

definition pow2 :: "int \<Rightarrow> rat" where
  "pow2 e = (if 0 \<le> e then 2 ^ nat e else 1 / 2 ^ nat (- e))"

text \<open>\<open>floor_log2 x\<close> is the binary exponent of a positive rational: \<open>2^e \<le> x < 2^(e+1)\<close>.\<close>

definition floor_log2 :: "rat \<Rightarrow> int" where
  "floor_log2 x =
     (let d = bitlen (fst (quotient_of x)) - bitlen (snd (quotient_of x))
      in if pow2 d \<le> x then d else d - 1)"

definition round_half_even :: "rat \<Rightarrow> int" where
  "round_half_even y =
     (let f = \<lfloor>y\<rfloor>; r = y - of_int f
      in if r < 1 / 2 then f
         else if 1 / 2 < r then f + 1
         else if even f then f else f + 1)"

text \<open>
  Rounding to the nearest binary64 value, ties to even: 53 significant bits, the exponent
  of a normal number at least \<open>-1022\<close> (below that the spacing stays \<open>2^-1074\<close>, the
  subnormal range), and a result of magnitude \<open>2^1024\<close> or more overflows to an infinity.
\<close>

definition fl_round :: "rat \<Rightarrow> pyfloat" where
  "fl_round x =
     (if x = 0 then Finite 0
      else
        let a = \<bar>x\<bar>;
            e = max (floor_log2 a) (- 1022);
            u = pow2 (e - 52);
            r = of_int (round_half_even (a / u)) * u
        in if 2 ^ 1024 \<le> r then (if 0 < x then PosInf else NegInf)
           else Finite (if 0 < x then r else - r))"

subsection \<open>IEEE arithmetic on floats\<close>

fun fneg :: "pyfloat \<Rightarrow> pyfloat" where
  "fneg (Finite a) = Finite (- a)"
| "fneg PosInf = NegInf"
| "fneg NegInf = PosInf"
| "fneg NaN = NaN"

fun fadd :: "pyfloat \<Rightarrow> pyfloat \<Rightarrow> pyfloat" where
  "fadd NaN _ = NaN"
| "fadd _ NaN = NaN"
| "fadd PosInf NegInf = NaN"
| "fadd NegInf PosInf = NaN"
| "fadd PosInf _ = PosInf"
| "fadd NegInf _ = NegInf"
| "fadd _ PosInf = PosInf"
| "fadd _ NegInf = NegInf"
| "fadd (Finite a) (Finite b) = fl_round (a + b)"

definition fsub :: "pyfloat \<Rightarrow> pyfloat \<Rightarrow> pyfloat" where
  "fsub x y = fadd x (fneg y)"

text \<open>The sign of a float as \<open>-1\<close>, \<open>0\<close> or \<open>1\<close> (NaN has none and is handled before).\<close>

fun fsgn :: "pyfloat \<Rightarrow> int" where
  "fsgn (Finite a) = (if a = 0 then 0 else if 0 < a then 1 else - 1)"
| "fsgn PosInf = 1"
| "fsgn NegInf = - 1"
| "fsgn NaN = 0"

definition inf_of_sign :: "int \<Rightarrow> pyfloat" where
  "inf_of_sign s = (if s = 0 then NaN else if 0 < s then PosInf else NegInf)"

fun fmul :: "pyfloat \<Rightarrow> pyfloat \<Rightarrow> pyfloat" where
  "fmul NaN _ = NaN"
| "fmul _ NaN = NaN"
| "fmul (Finite a) (Finite b) = fl_round (a * b)"
| "fmul x y = inf_of_sign (fsgn x * fsgn y)"

text \<open>Float division for a divisor that is not zero (Python raises before it divides by zero).\<close>

fun fdiv :: "pyfloat \<Rightarrow> pyfloat \<Rightarrow> pyfloat" where
  "fdiv NaN _ = NaN"
| "fdiv _ NaN = NaN"
| "fdiv (Finite a) (Finite b) = fl_round (a / b)"
| "fdiv (Finite a) PosInf = Finite 0"
| "fdiv (Finite a) NegInf = Finite 0"
| "fdiv PosInf (Finite b) = (if 0 < b then PosInf else NegInf)"
| "fdiv NegInf (Finite b) = (if 0 < b then NegInf else PosInf)"
| "fdiv _ _ = NaN"

subsection \<open>Python's numeric operators\<close>

text \<open>
  An operator on two integers stays in the integers. With a float operand the integer
  operand is converted first, and the conversion raises \<^verbatim>\<open>OverflowError\<close> when the integer
  rounds to a magnitude of \<open>2^1024\<close> or more. Float \<^verbatim>\<open>+\<close>, \<^verbatim>\<open>-\<close>, \<^verbatim>\<open>*\<close> and \<^verbatim>\<open>/\<close> never raise on
  overflow (they return an infinity); \<^verbatim>\<open>/\<close> raises \<^verbatim>\<open>ZeroDivisionError\<close> on a zero divisor.
\<close>

definition finite_or_overflow :: "pyfloat \<Rightarrow> error + pyfloat" where
  "finite_or_overflow x = (case x of Finite r \<Rightarrow> Inr (Finite r) | _ \<Rightarrow> Inl OverflowError)"

fun as_float :: "pynum \<Rightarrow> error + pyfloat" where
  "as_float (PInt i) = finite_or_overflow (fl_round (of_int i))"
| "as_float (PFloat x) = Inr x"

definition float_op :: "(pyfloat \<Rightarrow> pyfloat \<Rightarrow> pyfloat) \<Rightarrow> pynum \<Rightarrow> pynum \<Rightarrow> error + pynum" where
  "float_op f a b = rbind (as_float a) (\<lambda>x. rbind (as_float b) (\<lambda>y. Inr (PFloat (f x y))))"

fun num_add :: "pynum \<Rightarrow> pynum \<Rightarrow> error + pynum" where
  "num_add (PInt i) (PInt j) = Inr (PInt (i + j))"
| "num_add a b = float_op fadd a b"

fun num_sub :: "pynum \<Rightarrow> pynum \<Rightarrow> error + pynum" where
  "num_sub (PInt i) (PInt j) = Inr (PInt (i - j))"
| "num_sub a b = float_op fsub a b"

fun num_mul :: "pynum \<Rightarrow> pynum \<Rightarrow> error + pynum" where
  "num_mul (PInt i) (PInt j) = Inr (PInt (i * j))"
| "num_mul a b = float_op fmul a b"

text \<open>
  True division \<^verbatim>\<open>a / b\<close>. On two integers the exact quotient is rounded once (and the
  result must be finite: \<^verbatim>\<open>OverflowError\<close> otherwise); the result is a float in every case.
\<close>

fun num_truediv :: "pynum \<Rightarrow> pynum \<Rightarrow> error + pynum" where
  "num_truediv (PInt i) (PInt j) =
     (if j = 0 then Inl ZeroDivisionError
      else rbind (finite_or_overflow (fl_round (of_int i / of_int j))) (\<lambda>x. Inr (PFloat x)))"
| "num_truediv a b =
     rbind (as_float a) (\<lambda>x. rbind (as_float b) (\<lambda>y.
       if y = Finite 0 then Inl ZeroDivisionError else Inr (PFloat (fdiv x y))))"

text \<open>Floor division \<^verbatim>\<open>a // b\<close> on integers (HOL's \<open>div\<close> on \<open>int\<close> rounds down as Python does).\<close>

definition int_floordiv :: "int \<Rightarrow> int \<Rightarrow> error + int" where
  "int_floordiv a b = (if b = 0 then Inl ZeroDivisionError else Inr (a div b))"

text \<open>
  \<^verbatim>\<open>x ** n\<close> for the literal exponents \<open>2\<close> and \<open>3\<close> the code uses. On a float the C library's
  \<^verbatim>\<open>pow\<close> is taken to return the correctly rounded power; a finite base whose power
  overflows raises \<^verbatim>\<open>OverflowError\<close>.
\<close>

fun num_pow :: "pynum \<Rightarrow> nat \<Rightarrow> error + pynum" where
  "num_pow (PInt i) n = Inr (PInt (i ^ n))"
| "num_pow (PFloat (Finite a)) n =
     rbind (finite_or_overflow (fl_round (a ^ n))) (\<lambda>x. Inr (PFloat x))"
| "num_pow (PFloat PosInf) n = Inr (PFloat PosInf)"
| "num_pow (PFloat NegInf) n = Inr (PFloat (if even n then PosInf else NegInf))"
| "num_pow (PFloat NaN) n = Inr (PFloat NaN)"

fun num_abs :: "pynum \<Rightarrow> pynum" where
  "num_abs (PInt i) = PInt \<bar>i\<bar>"
| "num_abs (PFloat (Finite a)) = PFloat (Finite \<bar>a\<bar>)"
| "num_abs (PFloat PosInf) = PFloat PosInf"
| "num_abs (PFloat NegInf) = PFloat PosInf"
| "num_abs (PFloat NaN) = PFloat NaN"

text \<open>\<^verbatim>\<open>x < k\<close> for an integer \<open>k\<close>: exact, and false on a NaN.\<close>

fun num_less_int :: "pynum \<Rightarrow> int \<Rightarrow> bool" where
  "num_less_int (PInt i) k = (i < k)"
| "num_less_int (PFloat (Finite a)) k = (a < of_int k)"
| "num_less_int (PFloat NegInf) k = True"
| "num_less_int (PFloat PosInf) k = False"
| "num_less_int (PFloat NaN) k = False"

text \<open>\<^verbatim>\<open>int(x)\<close>: truncation toward zero; an infinity or a NaN raises.\<close>

fun py_int :: "pynum \<Rightarrow> error + int" where
  "py_int (PInt i) = Inr i"
| "py_int (PFloat (Finite a)) = Inr (if 0 \<le> a then \<lfloor>a\<rfloor> else \<lceil>a\<rceil>)"
| "py_int (PFloat NaN) = Inl (ValueError ''cannot convert float NaN to integer'')"
| "py_int (PFloat _) = Inl OverflowError"

section \<open>The data model\<close>

text \<open>
  Modelled from the spec: the class \<^verbatim>\<open>Assets\<close> (\<^verbatim>\<open>cardex.dataclasses.models\<close>) is not among
  the sources. A bag maps asset identifiers to integer quantities and keeps the order
  of its entries; \<^verbatim>\<open>len\<close> counts the entries, \<^verbatim>\<open>unit()\<close> and \<^verbatim>\<open>quantity()\<close> read the
  identifier and the quantity of the first entry and raise on an empty bag.
\<close>

type_synonym Assets = "(string \<times> int) list"

definition unit :: "Assets \<Rightarrow> error + string" where
  "unit a = (case a of [] \<Rightarrow> Inl IndexError | (u, q) # _ \<Rightarrow> Inr u)"

definition quantity :: "Assets \<Rightarrow> error + int" where
  "quantity a = (case a of [] \<Rightarrow> Inl IndexError | (u, q) # _ \<Rightarrow> Inr q)"

text \<open>
  Modelled from the spec: the class \<^verbatim>\<open>BasePoolState\<close> (\<^verbatim>\<open>cardex.dexs.base_classes\<close>) is not
  among the sources. The quoting code reads five of its attributes: the two asset
  identifiers, the two integer reserves and the fee in basis points. (The constant-product
  code reads the fee as \<^verbatim>\<open>self.volume_fee()\<close>, the stable-swap code as \<^verbatim>\<open>self.volume_fee\<close>; it
  is one integer attribute here.)
\<close>

record pool_state =
  unit_a :: string
  unit_b :: string
  reserve_a :: int
  reserve_b :: int
  volume_fee :: int

section \<open>The constant-product curve\<close>

text \<open>
  \<^verbatim>\<open>AbstractConstantProductPoolState.get_amount_out\<close>. The two assertions come first (the
  text of the second message is shortened), then the choice of the side, the floor
  quotient, the early return on a zero amount, and the price impact.
\<close>

definition get_amount_out_ConstantProduct :: "pool_state \<Rightarrow> Assets \<Rightarrow> error + Assets \<times> pynum" where
  "get_amount_out_ConstantProduct st asset =
     (if length asset \<noteq> 1 then Inl (AssertionError ''Asset should only have one token.'')
      else rbind (unit asset) (\<lambda>u.
        if u \<notin> set [unit_a st, unit_b st] then Inl (AssertionError ''Asset is invalid for pool'')
        else
          let reserve_in = (if u = unit_a st then reserve_a st else reserve_b st);
              reserve_out = (if u = unit_a st then reserve_b st else reserve_a st);
              unit_out = (if u = unit_a st then unit_b st else unit_a st);
              fee_modifier = 10000 - volume_fee st
          in rbind (quantity asset) (\<lambda>q.
               let numerator = q * fee_modifier * reserve_out;
                   denominator = q * fee_modifier + reserve_in * 10000
               in rbind (int_floordiv numerator denominator) (\<lambda>a.
                    let amount_out = [(unit_out, a)]
                    in rbind (quantity amount_out) (\<lambda>qo.
                         if qo = 0 then Inr (amount_out, PInt 0)
                         else
                           let price_numerator =
                                 reserve_out * q * denominator * fee_modifier -
                                 numerator * reserve_in * 10000;
                               price_denominator = reserve_out * q * denominator * 10000
                           in rbind (num_truediv (PInt price_numerator) (PInt price_denominator))
                                (\<lambda>price_impact. Inr (amount_out, price_impact)))))))"

text \<open>
  The same computation from the choice of the side on, as functions of the chosen reserves:
  the quote of a checked input is \<open>swap_amounts reserve_in reserve_out unit_out fee q\<close>.
\<close>

definition price_impact :: "int \<Rightarrow> int \<Rightarrow> int \<Rightarrow> int \<Rightarrow> int \<Rightarrow> int \<Rightarrow> error + pynum" where
  "price_impact reserve_in reserve_out q fee_modifier numerator denominator =
     (let price_numerator =
            reserve_out * q * denominator * fee_modifier - numerator * reserve_in * 10000;
          price_denominator = reserve_out * q * denominator * 10000
      in num_truediv (PInt price_numerator) (PInt price_denominator))"

definition swap_amounts :: "int \<Rightarrow> int \<Rightarrow> string \<Rightarrow> int \<Rightarrow> int \<Rightarrow> error + Assets \<times> pynum" where
  "swap_amounts reserve_in reserve_out unit_out fee q =
     (let fee_modifier = 10000 - fee;
          numerator = q * fee_modifier * reserve_out;
          denominator = q * fee_modifier + reserve_in * 10000
      in rbind (int_floordiv numerator denominator) (\<lambda>a.
           let amount_out = [(unit_out, a)]
           in rbind (quantity amount_out) (\<lambda>qo.
                if qo = 0 then Inr (amount_out, PInt 0)
                else rbind (price_impact reserve_in reserve_out q fee_modifier numerator denominator)
                       (\<lambda>p. Inr (amount_out, p)))))"

section \<open>The stable-swap curve\<close>

definition amp :: int where
  "amp = 75"

definition N_COINS :: int where
  "N_COINS = 2"

definition Ann :: int where
  "Ann = amp * N_COINS ^ nat N_COINS"

text \<open>
  One pass of the loop body of \<^verbatim>\<open>_get_D\<close>:
  \<^verbatim>\<open>D_P = D**3 / (N_COINS**N_COINS * reserve_a * reserve_b)\<close>, then
  \<^verbatim>\<open>D = D * (Ann * S + D_P * N_COINS) / ((Ann - 1) * D + (N_COINS + 1) * D_P)\<close>,
  the operators applied in Python's order of evaluation.
\<close>

definition D_step :: "pool_state \<Rightarrow> pynum \<Rightarrow> error + pynum" where
  "D_step st D =
     (let S = reserve_a st + reserve_b st
      in rbind (num_pow D 3) (\<lambda>D3.
         rbind (num_truediv D3 (PInt (N_COINS ^ nat N_COINS * reserve_a st * reserve_b st))) (\<lambda>D_P.
         rbind (num_mul D_P (PInt N_COINS)) (\<lambda>t1.
         rbind (num_add (PInt (Ann * S)) t1) (\<lambda>t2.
         rbind (num_mul D t2) (\<lambda>lhs.
         rbind (num_mul (PInt (Ann - 1)) D) (\<lambda>t3.
         rbind (num_mul (PInt (N_COINS + 1)) D_P) (\<lambda>t4.
         rbind (num_add t3 t4) (\<lambda>rhs.
         num_truediv lhs rhs)))))))))"

text \<open>\<^verbatim>\<open>abs(x - x_prev) < 1\<close>, the test that leaves either loop.\<close>

definition moved_less_than_1 :: "pynum \<Rightarrow> pynum \<Rightarrow> error + bool" where
  "moved_less_than_1 x x_prev = rbind (num_sub x x_prev) (\<lambda>d. Inr (num_less_int (num_abs d) 1))"

text \<open>
  \<^verbatim>\<open>for i in range(256)\<close> of \<^verbatim>\<open>_get_D\<close>, with the number of passes left as the first
  argument: a pass computes the next \<open>D\<close> and leaves the loop when it moved by less than 1.
\<close>

fun D_loop :: "nat \<Rightarrow> pool_state \<Rightarrow> pynum \<Rightarrow> error + pynum" where
  "D_loop 0 st D = Inr D"
| "D_loop (Suc n) st D =
     rbind (D_step st D) (\<lambda>D'.
     rbind (moved_less_than_1 D' D) (\<lambda>stop.
       if stop then Inr D' else D_loop n st D'))"

text \<open>\<^verbatim>\<open>AbstractStableSwapPoolState._get_D\<close>.\<close>

definition get_D :: "pool_state \<Rightarrow> error + pynum" where
  "get_D st =
     (let S = reserve_a st + reserve_b st
      in if S = 0 then Inr (PInt 0) else D_loop 256 st (PInt S))"

text \<open>One pass of the loop body of \<^verbatim>\<open>_get_y\<close>: \<^verbatim>\<open>out = (out**2 + c) / (2 * out + b - D)\<close>.\<close>

definition y_step :: "pynum \<Rightarrow> pynum \<Rightarrow> pynum \<Rightarrow> pynum \<Rightarrow> error + pynum" where
  "y_step c b D out =
     rbind (num_pow out 2) (\<lambda>o2.
     rbind (num_add o2 c) (\<lambda>top.
     rbind (num_mul (PInt 2) out) (\<lambda>t1.
     rbind (num_add t1 b) (\<lambda>t2.
     rbind (num_sub t2 D) (\<lambda>bot.
     num_truediv top bot)))))"

fun y_loop :: "nat \<Rightarrow> pynum \<Rightarrow> pynum \<Rightarrow> pynum \<Rightarrow> pynum \<Rightarrow> error + pynum" where
  "y_loop 0 c b D out = Inr out"
| "y_loop (Suc n) c b D out =
     rbind (y_step c b D out) (\<lambda>out'.
     rbind (moved_less_than_1 out' out) (\<lambda>stop.
       if stop then Inr out' else y_loop n c b D out'))"

text \<open>
  \<^verbatim>\<open>AbstractStableSwapPoolState._get_y\<close>. \<open>D\<close> is computed first, the three checks on the
  arguments follow, then the fee, the post-trade input reserve, the loop, and
  \<^verbatim>\<open>return Assets(**{out_unit: int(out)})\<close>.
\<close>

definition get_y :: "pool_state \<Rightarrow> Assets \<Rightarrow> string \<Rightarrow> error + Assets" where
  "get_y st in_assets out_unit =
     rbind (get_D st) (\<lambda>D.
       if 1 < length in_assets then Inl (ValueError ''Only one input asset allowed.'')
       else rbind (unit in_assets) (\<lambda>u.
         if u \<notin> set [unit_a st, unit_b st] then Inl (ValueError ''Invalid input token.'')
         else if out_unit \<notin> set [unit_a st, unit_b st] then Inl (ValueError ''Invalid output token.'')
         else
           rbind (quantity in_assets) (\<lambda>q.
           rbind (num_truediv (PInt (q * (10000 - volume_fee st))) (PInt 10000)) (\<lambda>in_quantity.
           rbind (num_add (PInt (if u = unit_a st then reserve_a st else reserve_b st)) in_quantity)
             (\<lambda>in_reserve.
           rbind (num_pow D 3) (\<lambda>D3.
           rbind (num_mul (PInt (N_COINS ^ 2 * Ann)) in_reserve) (\<lambda>cd.
           rbind (num_truediv D3 cd) (\<lambda>c.
           rbind (num_truediv D (PInt Ann)) (\<lambda>t.
           rbind (num_add in_reserve t) (\<lambda>b.
           rbind (y_loop 256 c b D D) (\<lambda>out.
           rbind (py_int out) (\<lambda>y. Inr [(out_unit, y)]))))))))))))"

text \<open>
  The value of \<^verbatim>\<open>out\<close> when the loop of \<^verbatim>\<open>_get_y\<close> ends (the same body, up to the
  \<^verbatim>\<open>return\<close>): the projected post-trade reserve before \<^verbatim>\<open>int()\<close> is applied.
\<close>

definition get_y_out :: "pool_state \<Rightarrow> Assets \<Rightarrow> string \<Rightarrow> error + pynum" where
  "get_y_out st in_assets out_unit =
     rbind (get_D st) (\<lambda>D.
       if 1 < length in_assets then Inl (ValueError ''Only one input asset allowed.'')
       else rbind (unit in_assets) (\<lambda>u.
         if u \<notin> set [unit_a st, unit_b st] then Inl (ValueError ''Invalid input token.'')
         else if out_unit \<notin> set [unit_a st, unit_b st] then Inl (ValueError ''Invalid output token.'')
         else
           rbind (quantity in_assets) (\<lambda>q.
           rbind (num_truediv (PInt (q * (10000 - volume_fee st))) (PInt 10000)) (\<lambda>in_quantity.
           rbind (num_add (PInt (if u = unit_a st then reserve_a st else reserve_b st)) in_quantity)
             (\<lambda>in_reserve.
           rbind (num_pow D 3) (\<lambda>D3.
           rbind (num_mul (PInt (N_COINS ^ 2 * Ann)) in_reserve) (\<lambda>cd.
           rbind (num_truediv D3 cd) (\<lambda>c.
           rbind (num_truediv D (PInt Ann)) (\<lambda>t.
           rbind (num_add in_reserve t) (\<lambda>b.
           y_loop 256 c b D D))))))))))"

text \<open>
  \<^verbatim>\<open>AbstractStableSwapPoolState.get_amount_out\<close>: the entry of the bag that \<^verbatim>\<open>_get_y\<close> returned
  is overwritten with the reserve less the projected reserve; the second component is \<open>0\<close>.
\<close>

definition get_amount_out_StableSwap :: "pool_state \<Rightarrow> Assets \<Rightarrow> error + Assets \<times> pynum" where
  "get_amount_out_StableSwap st asset =
     rbind (unit asset) (\<lambda>u.
       let out_unit = (if u = unit_b st then unit_a st else unit_b st)
       in rbind (get_y st asset out_unit) (\<lambda>out_asset.
            let out_reserve = (if out_unit = unit_b st then reserve_b st else reserve_a st)
            in rbind (quantity out_asset) (\<lambda>y.
               rbind (py_int (PInt (out_reserve - y))) (\<lambda>v.
               rbind (unit out_asset) (\<lambda>k.
                 Inr (AList.update k v out_asset, PInt 0))))))"

text \<open>
  The spec's \<open>InvalidInput\<close> condition: the assertions of the constant-product curve and
  the checks of \<^verbatim>\<open>_get_y\<close>.
\<close>

definition InvalidInput :: "error \<Rightarrow> bool" where
  "InvalidInput e =
     (e = AssertionError ''Asset should only have one token.'' \<or>
      e = AssertionError ''Asset is invalid for pool'' \<or>
      e = ValueError ''Only one input asset allowed.'' \<or>
      e = ValueError ''Invalid input token.'' \<or>
      e = ValueError ''Invalid output token.'')"

text \<open>
  The exceptions that arithmetic raises: a zero divisor, a value outside the finite floats,
  and \<^verbatim>\<open>int()\<close> of a NaN.
\<close>

definition numeric_error :: "error \<Rightarrow> bool" where
  "numeric_error e =
     (e = ZeroDivisionError \<or> e = OverflowError \<or>
      e = ValueError ''cannot convert float NaN to integer'')"

text \<open>A float that is an infinity or a finite value of normal magnitude: it is not zero.\<close>

definition nonzero_float :: "pyfloat \<Rightarrow> bool" where
  "nonzero_float x = (case x of Finite r \<Rightarrow> pow2 (- 1022) \<le> \<bar>r\<bar> | NaN \<Rightarrow> False | _ \<Rightarrow> True)"

section \<open>The iteration for \<open>D\<close> as the spec words it\<close>

text \<open>
  \<open>D_iterate st D0 n\<close> is the value of \<open>D\<close> after \<open>n\<close> passes that start from \<open>D0\<close>, each
  pass replacing \<open>D\<close> by \<open>D * (Ann*S + D_P*N_COINS) / ((Ann-1)*D + (N_COINS+1)*D_P)\<close> with
  \<open>D_P = D^3 / (N_COINS^N_COINS * reserve_a * reserve_b)\<close>.
\<close>

fun D_iterate :: "pool_state \<Rightarrow> pynum \<Rightarrow> nat \<Rightarrow> error + pynum" where
  "D_iterate st D0 0 = Inr D0"
| "D_iterate st D0 (Suc n) = rbind (D_iterate st D0 n) (D_step st)"

text \<open>Pass \<open>n\<close> (counted from 1) changed \<open>D\<close> by less than \<open>1\<close>.\<close>

definition D_settled :: "pool_state \<Rightarrow> pynum \<Rightarrow> nat \<Rightarrow> bool" where
  "D_settled st D0 n =
     (case D_iterate st D0 (n - 1) of
        Inl e \<Rightarrow> False
      | Inr D_prev \<Rightarrow>
          (case D_step st D_prev of
             Inl e \<Rightarrow> False
           | Inr D \<Rightarrow> moved_less_than_1 D D_prev = Inr True))"

text \<open>
  The pass at which an iteration of at most \<open>n\<close> passes from \<open>D0\<close> stops: the first pass
  that changed \<open>D\<close> by less than \<open>1\<close>, and pass \<open>n\<close> when there is none.
\<close>

definition D_stop :: "pool_state \<Rightarrow> pynum \<Rightarrow> nat \<Rightarrow> nat" where
  "D_stop st D0 n = (case find (D_settled st D0) [1..<Suc n] of Some k \<Rightarrow> k | None \<Rightarrow> n)"

section \<open>Concrete pools\<close>

text \<open>The balanced pool of the spec's scenario A, with a fee of 30 basis points.\<close>

definition pool_A :: pool_state where
  "pool_A = \<lparr>unit_a = ''lovelace'', unit_b = ''token'',
              reserve_a = 1000000, reserve_b = 1000000, volume_fee = 30\<rparr>"

text \<open>The empty pool of the spec's scenario B.\<close>

definition pool_empty :: pool_state where
  "pool_empty = \<lparr>unit_a = ''lovelace'', unit_b = ''token'',
                  reserve_a = 0, reserve_b = 0, volume_fee = 30\<rparr>"

text \<open>A pool that holds only one of its two assets.\<close>

definition pool_one_sided :: pool_state where
  "pool_one_sided = \<lparr>unit_a = ''lovelace'', unit_b = ''token'',
                      reserve_a = 0, reserve_b = 5, volume_fee = 30\<rparr>"

text \<open>A pool without fee and with very small reserves.\<close>

definition pool_thin :: pool_state where
  "pool_thin = \<lparr>unit_a = ''lovelace'', unit_b = ''token'',
                 reserve_a = 1, reserve_b = 2, volume_fee = 0\<rparr>"

text \<open>A pool far from balance.\<close>

definition pool_lopsided :: pool_state where
  "pool_lopsided = \<lparr>unit_a = ''lovelace'', unit_b = ''token'',
                     reserve_a = 1000000, reserve_b = 10000000, volume_fee = 30\<rparr>"

section \<open>Auxiliary facts\<close>

subsection \<open>Sequencing, rounding\<close>

lemma rbind_Inl [simp]: "rbind (Inl e) f = Inl e"
  by (simp add: rbind_def)

lemma rbind_Inr [simp]: "rbind (Inr x) f = f x"
  by (simp add: rbind_def)

lemma rbind_eq_Inr_iff: "rbind m f = Inr y \<longleftrightarrow> (\<exists>x. m = Inr x \<and> f x = Inr y)"
  by (cases m) simp_all

lemma rbind_eq_Inl_iff: "rbind m f = Inl e \<longleftrightarrow> m = Inl e \<or> (\<exists>x. m = Inr x \<and> f x = Inl e)"
  by (cases m) auto

lemma rbind_assoc: "rbind (rbind m f) g = rbind m (\<lambda>x. rbind (f x) g)"
  by (cases m) simp_all

lemma pow2_pos: "0 < pow2 e"
  by (simp add: pow2_def)

lemma round_half_even_ge_floor: "\<lfloor>y\<rfloor> \<le> round_half_even y"
  by (simp add: round_half_even_def Let_def)

lemma round_half_even_le_ceiling: "round_half_even y \<le> \<lceil>y\<rceil>"
proof -
  have "\<lfloor>y\<rfloor> + 1 \<le> \<lceil>y\<rceil>" if "y \<noteq> of_int \<lfloor>y\<rfloor>"
    using that by (metis ceiling_altdef order_refl)
  moreover have "\<lfloor>y\<rfloor> \<le> \<lceil>y\<rceil>" by (rule floor_le_ceiling)
  ultimately show ?thesis
    by (auto simp: round_half_even_def Let_def)
qed

lemma round_half_even_nonneg: "0 \<le> y \<Longrightarrow> 0 \<le> round_half_even y"
  using round_half_even_ge_floor [of y] by (simp add: order_trans [of 0 "\<lfloor>y\<rfloor>"])

lemma round_half_even_le_int: "y \<le> of_int m \<Longrightarrow> round_half_even y \<le> m"
  using round_half_even_le_ceiling [of y] by (meson ceiling_le order_trans)

lemma round_half_even_small: "0 \<le> y \<Longrightarrow> y \<le> 1 / 2 \<Longrightarrow> round_half_even y = 0"
proof -
  assume a: "0 \<le> y" "y \<le> 1 / 2"
  then have "\<lfloor>y\<rfloor> = 0" by (simp add: floor_eq_iff)
  with a show ?thesis by (simp add: round_half_even_def Let_def)
qed

lemma fl_round_unit:
  assumes "0 \<le> x" "x \<le> 1"
  shows "\<exists>r. fl_round x = Finite r \<and> 0 \<le> r \<and> r \<le> 1"
proof (cases "x = 0")
  case True
  then show ?thesis by (simp add: fl_round_def)
next
  case False
  with assms have xpos: "0 < x" by simp
  define e where "e = max (floor_log2 \<bar>x\<bar>) (- 1022)"
  define u where "u = pow2 (e - 52)"
  define n where "n = round_half_even (\<bar>x\<bar> / u)"
  have upos: "0 < u" by (simp add: u_def pow2_pos)
  have n0: "0 \<le> n" unfolding n_def using xpos upos by (intro round_half_even_nonneg) simp
  have bound: "of_int n * u \<le> 1"
  proof (cases "e - 52 \<le> 0")
    case True
    then have u: "u = 1 / 2 ^ nat (52 - e)"
      by (cases "e = 52") (auto simp: u_def pow2_def)
    have "\<bar>x\<bar> / u \<le> of_int (2 ^ nat (52 - e))"
      using assms by (simp add: u mult_le_cancel_right1)
    then have "n \<le> 2 ^ nat (52 - e)" unfolding n_def by (rule round_half_even_le_int)
    then have "(of_int n :: rat) \<le> 2 ^ nat (52 - e)"
      by (metis of_int_le_iff of_int_numeral of_int_power)
    then show ?thesis by (simp add: u field_simps)
  next
    case False
    then have u: "u = 2 ^ nat (e - 52)" and "0 < nat (e - 52)" by (auto simp: u_def pow2_def)
    then have "2 \<le> u" using self_le_power [of "2::rat" "nat (e - 52)"] by simp
    then have "\<bar>x\<bar> / u \<le> 1 / 2" using assms upos by (simp add: field_simps)
    then have "n = 0" unfolding n_def using xpos upos by (intro round_half_even_small) simp_all
    then show ?thesis by simp
  qed
  have r: "fl_round x = (if 2 ^ 1024 \<le> of_int n * u then PosInf else Finite (of_int n * u))"
    using xpos by (simp add: fl_round_def Let_def n_def u_def e_def)
  have "\<not> (2::rat) ^ 1024 \<le> of_int n * u"
  proof -
    have "(1::rat) < 2 ^ 1024" by simp
    with bound show ?thesis by linarith
  qed
  moreover have "0 \<le> of_int n * u" using n0 upos by simp
  ultimately show ?thesis
    using bound by (simp only: r if_False) simp
qed


text \<open>The binary exponent is right, so a rounding can be checked from its result.\<close>

lemma pow2_powi: "pow2 e = 2 powi e"
  by (simp add: pow2_def power_int_def power_one_over)

lemma pow2_add: "pow2 (a + b) = pow2 a * pow2 b"
  by (simp add: pow2_powi power_int_add)

lemma pow2_mono: "a \<le> b \<Longrightarrow> pow2 a \<le> pow2 b"
  by (simp add: pow2_powi power_int_increasing)

lemma pow2_less_cancel: "pow2 a < pow2 b \<Longrightarrow> a < b"
  using pow2_mono [of b a] by (cases "a < b") auto

lemma quotient_of_pos:
  assumes "0 < x"
  shows "0 < fst (quotient_of x)" and "0 < snd (quotient_of x)"
    and "x = of_int (fst (quotient_of x)) / of_int (snd (quotient_of x))"
proof -
  obtain p q where pq: "quotient_of x = (p, q)" by (cases "quotient_of x")
  then have q: "0 < q" by (rule quotient_of_denom_pos)
  have x: "x = of_int p / of_int q" using pq by (rule quotient_of_div)
  show "0 < snd (quotient_of x)" using q pq by simp
  show "x = of_int (fst (quotient_of x)) / of_int (snd (quotient_of x))" using x pq by simp
  have "0 < (of_int p :: rat)"
    using assms q x by (simp add: zero_less_divide_iff)
  then show "0 < fst (quotient_of x)" using pq by simp
qed

lemma bitlen_pow2_bounds:
  assumes "0 < p"
  shows "pow2 (bitlen p - 1) \<le> of_int p" and "of_int p < pow2 (bitlen p)"
proof -
  have b: "1 \<le> bitlen p" using assms bitlen_eq_zero_iff [of p] bitlen_nonneg [of p] by linarith
  from bitlen_bounds [OF assms]
  have l: "2 ^ nat (bitlen p - 1) \<le> p" and u: "p < 2 ^ nat (bitlen p)" by simp_all
  have "(of_int (2 ^ nat (bitlen p - 1)) :: rat) \<le> of_int p" using l by (simp only: of_int_le_iff)
  then show "pow2 (bitlen p - 1) \<le> of_int p" using b by (simp add: pow2_def)
  have "(of_int p :: rat) < of_int (2 ^ nat (bitlen p))" using u by (simp only: of_int_less_iff)
  then show "of_int p < pow2 (bitlen p)" using b by (simp add: pow2_def)
qed

lemma floor_log2_bounds:
  assumes "0 < x"
  shows "pow2 (floor_log2 x) \<le> x" and "x < pow2 (floor_log2 x + 1)"
proof -
  define p where "p = fst (quotient_of x)"
  define q where "q = snd (quotient_of x)"
  define d where "d = bitlen p - bitlen q"
  have p: "0 < p" and q: "0 < q" and x: "x = of_int p / of_int q"
    using quotient_of_pos [OF assms] by (simp_all add: p_def q_def)
  have qr: "(0::rat) < of_int q" using q by simp
  note bp = bitlen_pow2_bounds [OF p] and bq = bitlen_pow2_bounds [OF q]
  have fl: "floor_log2 x = (if pow2 d \<le> x then d else d - 1)"
    by (simp add: floor_log2_def Let_def d_def p_def q_def)
  have low: "pow2 (d - 1) \<le> x"
  proof -
    have "pow2 (d - 1) * of_int q \<le> pow2 (d - 1) * pow2 (bitlen q)"
      using bq(2) pow2_pos [of "d - 1"] by (simp add: mult_left_mono less_imp_le)
    also have "\<dots> = pow2 (bitlen p - 1)"
      by (simp add: d_def pow2_add [symmetric])
    also have "\<dots> \<le> of_int p" by (rule bp(1))
    finally show ?thesis using qr by (simp add: x pos_le_divide_eq)
  qed
  have high: "x < pow2 (d + 1)"
  proof -
    have "of_int p < pow2 (bitlen p)" by (rule bp(2))
    also have "\<dots> = pow2 (d + 1) * pow2 (bitlen q - 1)"
      by (simp add: d_def pow2_add [symmetric])
    also have "\<dots> \<le> pow2 (d + 1) * of_int q"
      using bq(1) pow2_pos [of "d + 1"] by (simp add: mult_left_mono less_imp_le)
    finally show ?thesis using qr by (simp add: x pos_divide_less_eq)
  qed
  show "pow2 (floor_log2 x) \<le> x" using low by (simp add: fl)
  show "x < pow2 (floor_log2 x + 1)" using high by (auto simp: fl not_le)
qed

lemma floor_log2_unique:
  assumes "pow2 e \<le> x" "x < pow2 (e + 1)"
  shows "floor_log2 x = e"
proof -
  have x: "0 < x" using assms(1) pow2_pos [of e] by linarith
  note b = floor_log2_bounds [OF x]
  have "pow2 e < pow2 (floor_log2 x + 1)" using assms(1) b(2) by linarith
  then have "e < floor_log2 x + 1" by (rule pow2_less_cancel)
  moreover have "pow2 (floor_log2 x) < pow2 (e + 1)" using assms(2) b(1) by linarith
  then have "floor_log2 x < e + 1" by (rule pow2_less_cancel)
  ultimately show ?thesis by linarith
qed

lemma fl_round_0 [simp]: "fl_round 0 = Finite 0"
  by (simp add: fl_round_def)

lemma fl_round_minus: "fl_round (- x) = fneg (fl_round x)"
  by (simp add: fl_round_def Let_def)

lemma round_half_even_nearest:
  assumes "\<bar>y - of_int n\<bar> < 1 / 2 \<or> \<bar>y - of_int n\<bar> = 1 / 2 \<and> even n"
  shows "round_half_even y = n"
proof -
  consider (lo) "of_int n \<le> y" "y < of_int n + 1 / 2"
    | (hi) "of_int n - 1 / 2 < y" "y < of_int n"
    | (tie_up) "y = of_int n + 1 / 2" "even n"
    | (tie_down) "y = of_int n - 1 / 2" "even n"
    using assms by (auto simp: abs_if split: if_splits) 
  then show ?thesis
  proof cases
    case lo
    then have "\<lfloor>y\<rfloor> = n" by (simp add: floor_eq_iff)
    with lo show ?thesis by (simp add: round_half_even_def Let_def)
  next
    case hi
    then have "\<lfloor>y\<rfloor> = n - 1" by (simp add: floor_eq_iff)
    with hi show ?thesis by (simp add: round_half_even_def Let_def)
  next
    case tie_up
    then have "\<lfloor>y\<rfloor> = n" by (simp add: floor_eq_iff)
    with tie_up show ?thesis by (simp add: round_half_even_def Let_def)
  next
    case tie_down
    then have "\<lfloor>y\<rfloor> = n - 1" by (simp add: floor_eq_iff)
    with tie_down show ?thesis by (simp add: round_half_even_def Let_def)
  qed
qed

lemma fl_round_normal:
  assumes "pow2 e \<le> x" "x < pow2 (e + 1)" "- 1022 \<le> e"
    and "\<bar>x / pow2 (e - 52) - of_int n\<bar> < 1 / 2 \<or>
         \<bar>x / pow2 (e - 52) - of_int n\<bar> = 1 / 2 \<and> even n"
    and "of_int n * pow2 (e - 52) = r" "r < 2 ^ 1024"
  shows "fl_round x = Finite r"
proof -
  have x: "0 < x" using assms(1) pow2_pos [of e] by linarith
  have "floor_log2 x = e" using assms(1,2) by (rule floor_log2_unique)
  then have "max (floor_log2 \<bar>x\<bar>) (- 1022) = e" using x assms(3) by simp
  moreover have "round_half_even (x / pow2 (e - 52)) = n"
    using assms(4) by (rule round_half_even_nearest)
  ultimately show ?thesis
    using x assms(5,6) by (simp add: fl_round_def Let_def)
qed

text \<open>Integers below \<open>2^53\<close> in magnitude are floats.\<close>

lemma fl_round_of_int_pos:
  assumes "0 < i" "i < 2 ^ 53"
  shows "fl_round (of_int i) = Finite (of_int i)"
proof -
  define e where "e = floor_log2 (of_int i)"
  have x: "(0::rat) < of_int i" using assms by simp
  note b = floor_log2_bounds [OF x, folded e_def]
  have "pow2 0 \<le> (of_int i :: rat)" using assms by (simp add: pow2_def)
  then have "pow2 0 < pow2 (e + 1)" using b(2) by linarith
  then have e0: "0 \<le> e" using pow2_less_cancel [of 0 "e + 1"] by simp
  have "(of_int i :: rat) < of_int (2 ^ 53)" using assms(2) by (simp only: of_int_less_iff)
  then have "(of_int i :: rat) < pow2 53" by (simp add: pow2_def)
  then have "pow2 e < pow2 53" using b(1) by linarith
  then have e52: "e \<le> 52" using pow2_less_cancel [of e 53] by simp
  have u: "pow2 (e - 52) = 1 / 2 ^ nat (52 - e)"
    using e52 by (cases "e = 52") (auto simp: pow2_def)
  show ?thesis
  proof (rule fl_round_normal [where e = e and n = "i * 2 ^ nat (52 - e)"])
    show "pow2 e \<le> of_int i" "of_int i < pow2 (e + 1)" by (rule b)+
    show "- 1022 \<le> e" using e0 by simp
    show "\<bar>of_int i / pow2 (e - 52) - of_int (i * 2 ^ nat (52 - e))\<bar> < 1 / 2 \<or>
      \<bar>of_int i / pow2 (e - 52) - of_int (i * 2 ^ nat (52 - e))\<bar> = 1 / 2 \<and> even (i * 2 ^ nat (52 - e))"
      by (simp add: u)
    show "of_int (i * 2 ^ nat (52 - e)) * pow2 (e - 52) = (of_int i :: rat)"
      by (simp add: u)
    have "(of_int i :: rat) < of_int (2 ^ 53)" using assms(2) by (simp only: of_int_less_iff)
    also have "\<dots> < 2 ^ 1024" by simp
    finally show "(of_int i :: rat) < 2 ^ 1024" .
  qed
qed

lemma fl_round_of_int:
  assumes "\<bar>i\<bar> < 2 ^ 53"
  shows "fl_round (of_int i) = Finite (of_int i)"
proof (cases "0 < i")
  case True
  with assms show ?thesis by (simp add: fl_round_of_int_pos)
next
  case False
  show ?thesis
  proof (cases "i = 0")
    case True
    then show ?thesis by simp
  next
    case False
    with \<open>\<not> 0 < i\<close> assms have "0 < - i" "- i < 2 ^ 53" by simp_all
    then have "fl_round (of_int (- i)) = Finite (of_int (- i))" by (rule fl_round_of_int_pos)
    then have "fneg (fl_round (of_int i)) = Finite (- of_int i)"
      by (simp add: fl_round_minus)
    then show ?thesis by (cases "fl_round (of_int i)") simp_all
  qed
qed

lemma fl_round_numeral:
  "(numeral k :: int) < 2 ^ 53 \<Longrightarrow> fl_round (numeral k) = Finite (numeral k)"
  using fl_round_of_int [of "numeral k"] by simp

text \<open>Rounding a value of normal magnitude never gives zero.\<close>

lemma fl_round_keeps_normal_pos:
  assumes "pow2 (- 1022) \<le> x"
  shows "fl_round x = PosInf \<or> (\<exists>r. fl_round x = Finite r \<and> pow2 (- 1022) \<le> r)"
proof -
  have x: "0 < x" using assms pow2_pos [of "- 1022"] by linarith
  define e where "e = floor_log2 x"
  define u where "u = pow2 (e - 52)"
  define n where "n = round_half_even (x / u)"
  note b = floor_log2_bounds [OF x, folded e_def]
  have "pow2 (- 1022) < pow2 (e + 1)" using assms b(2) by linarith
  then have e: "- 1022 \<le> e" using pow2_less_cancel [of "- 1022" "e + 1"] by simp
  have u: "0 < u" by (simp add: u_def pow2_pos)
  have "pow2 e = pow2 (52 + (e - 52))" by simp
  also have "\<dots> = pow2 52 * pow2 (e - 52)" by (rule pow2_add)
  also have "pow2 52 = 2 ^ 52" by (simp add: pow2_def)
  finally have pe: "pow2 e = 2 ^ 52 * u" by (simp only: u_def)
  have "(2 ^ 52 :: rat) \<le> x / u" using b(1) u by (simp add: pe pos_le_divide_eq)
  then have "of_int (2 ^ 52) \<le> x / u" by simp
  then have "2 ^ 52 \<le> \<lfloor>x / u\<rfloor>" by (simp only: le_floor_iff)
  then have "2 ^ 52 \<le> n" using round_half_even_ge_floor [of "x / u"] unfolding n_def by linarith
  then have "(of_int (2 ^ 52) :: rat) \<le> of_int n" by (simp only: of_int_le_iff)
  then have "2 ^ 52 * u \<le> of_int n * u" using u by simp
  then have "pow2 e \<le> of_int n * u" by (simp only: pe)
  moreover have "pow2 (- 1022) \<le> pow2 e" using e by (rule pow2_mono)
  ultimately have r: "pow2 (- 1022) \<le> of_int n * u" by linarith
  have "fl_round x = (if 2 ^ 1024 \<le> of_int n * u then PosInf else Finite (of_int n * u))"
    using x e by (simp add: fl_round_def Let_def n_def u_def e_def max_def)
  with r show ?thesis by auto
qed

lemma fl_round_keeps_normal:
  assumes "pow2 (- 1022) \<le> \<bar>x\<bar>"
  shows "nonzero_float (fl_round x)"
proof (cases "0 \<le> x")
  case True
  with assms fl_round_keeps_normal_pos [of x] show ?thesis
    by (auto simp: nonzero_float_def)
next
  case False
  with assms have "pow2 (- 1022) \<le> - x" by simp
  from fl_round_keeps_normal_pos [OF this] show ?thesis
    by (cases "fl_round x") (auto simp: fl_round_minus nonzero_float_def)
qed

lemma nonzero_float_not_zero: "nonzero_float x \<Longrightarrow> x \<noteq> Finite 0"
  using pow2_pos [of "- 1022"] by (auto simp: nonzero_float_def)

lemma nonzero_float_add_zero:
  assumes "nonzero_float x"
  shows "nonzero_float (fadd (Finite 0) x)" and "nonzero_float (fadd x (Finite 0))"
    and "nonzero_float (fsub x (Finite 0))"
proof -
  have "nonzero_float (fadd (Finite 0) x) \<and> nonzero_float (fadd x (Finite 0)) \<and>
      nonzero_float (fsub x (Finite 0))"
  proof (cases x)
    case (Finite r)
    then have "pow2 (- 1022) \<le> \<bar>r\<bar>" using assms by (simp add: nonzero_float_def)
    then have "nonzero_float (fl_round r)" by (rule fl_round_keeps_normal)
    then show ?thesis using Finite by (simp add: fsub_def)
  next
    case PosInf
    then show ?thesis by (simp add: fsub_def nonzero_float_def)
  next
    case NegInf
    then show ?thesis by (simp add: fsub_def nonzero_float_def)
  next
    case NaN
    then show ?thesis using assms by (simp add: nonzero_float_def)
  qed
  then show "nonzero_float (fadd (Finite 0) x)" and "nonzero_float (fadd x (Finite 0))"
    and "nonzero_float (fsub x (Finite 0))"
    by simp_all
qed

lemma nonzero_float_times_1200:
  assumes "nonzero_float x"
  shows "nonzero_float (fmul (Finite 1200) x)"
proof (cases x)
  case (Finite r)
  then have "pow2 (- 1022) \<le> \<bar>r\<bar>" using assms by (simp add: nonzero_float_def)
  moreover have "\<bar>r\<bar> \<le> \<bar>1200 * r\<bar>" by (simp add: abs_mult)
  ultimately have "pow2 (- 1022) \<le> \<bar>1200 * r\<bar>" by linarith
  then show ?thesis using Finite by (simp add: fl_round_keeps_normal)
qed (use assms in \<open>simp_all add: nonzero_float_def inf_of_sign_def\<close>)

lemma zero_by_nonzero_float: "nonzero_float x \<Longrightarrow> fdiv (Finite 0) x = Finite 0"
  by (cases x) (simp_all add: nonzero_float_def)

lemma nonzero_float_eq_zero: "nonzero_float x \<Longrightarrow> (x = Finite 0) = False"
  by (simp add: nonzero_float_not_zero)

subsection \<open>Bags, the price-impact quotient\<close>

lemma unit_single [simp]: "unit ((u, q) # xs) = Inr u"
  by (simp add: unit_def)

lemma quantity_single [simp]: "quantity ((u, q) # xs) = Inr q"
  by (simp add: quantity_def)

lemma get_amount_out_ConstantProduct_single:
  assumes "u = unit_a st \<or> u = unit_b st"
  shows "get_amount_out_ConstantProduct st [(u, q)] =
           swap_amounts (if u = unit_a st then reserve_a st else reserve_b st)
             (if u = unit_a st then reserve_b st else reserve_a st)
             (if u = unit_a st then unit_b st else unit_a st) (volume_fee st) q"
  using assms
  unfolding get_amount_out_ConstantProduct_def swap_amounts_def price_impact_def Let_def
  by auto

lemma get_y_split:
  "get_y st in_assets out_unit =
     rbind (get_y_out st in_assets out_unit) (\<lambda>out. rbind (py_int out) (\<lambda>y. Inr [(out_unit, y)]))"
proof (cases "get_D st")
  case (Inl e)
  then show ?thesis by (simp add: get_y_def get_y_out_def)
next
  case (Inr D)
  show ?thesis
  proof (cases "unit in_assets")
    case (Inl e)
    then show ?thesis by (simp add: get_y_def get_y_out_def Inr)
  next
    case u: (Inr u)
    show ?thesis
      unfolding get_y_def get_y_out_def Inr u rbind_Inr
      by (simp add: rbind_assoc
          del: y_loop.simps num_truediv.simps num_add.simps num_mul.simps num_pow.simps py_int.simps)
  qed
qed

lemma swap_amounts_zero:
  assumes "q * (10000 - fee) + ri * 10000 \<noteq> 0"
    and "(q * (10000 - fee) * ro) div (q * (10000 - fee) + ri * 10000) = 0"
  shows "swap_amounts ri ro uo fee q = Inr ([(uo, 0)], PInt 0)"
  using assms by (simp add: swap_amounts_def int_floordiv_def Let_def)

lemma swap_amounts_nonzero:
  assumes "q * (10000 - fee) + ri * 10000 \<noteq> 0"
    and "(q * (10000 - fee) * ro) div (q * (10000 - fee) + ri * 10000) \<noteq> 0"
  shows "swap_amounts ri ro uo fee q =
           rbind (price_impact ri ro q (10000 - fee) (q * (10000 - fee) * ro)
                    (q * (10000 - fee) + ri * 10000))
             (\<lambda>p. Inr ([(uo, (q * (10000 - fee) * ro) div (q * (10000 - fee) + ri * 10000))], p))"
  using assms by (simp add: swap_amounts_def int_floordiv_def Let_def)

lemma price_impact_rounds_once:
  assumes "ro * q * den * 10000 \<noteq> 0"
  shows "price_impact ri ro q fm nu den =
           rbind (finite_or_overflow
                    (fl_round (of_int (ro * q * den * fm - nu * ri * 10000) /
                               of_int (ro * q * den * 10000))))
             (\<lambda>x. Inr (PFloat x))"
  using assms by (simp add: price_impact_def Let_def)

lemma price_ratio_simplifies:
  fixes q fm ri ro :: int
  assumes "ro \<noteq> 0" "q \<noteq> 0"
  shows "(of_int (ro * q * (q * fm + ri * 10000) * fm - q * fm * ro * ri * 10000) :: rat) /
           of_int (ro * q * (q * fm + ri * 10000) * 10000) =
         of_int (q * fm * fm) / of_int ((q * fm + ri * 10000) * 10000)"
proof -
  define N where "N = q * fm * fm"
  define M where "M = (q * fm + ri * 10000) * 10000"
  have n: "ro * q * (q * fm + ri * 10000) * fm - q * fm * ro * ri * 10000 = (ro * q) * N"
    by (simp add: N_def algebra_simps)
  have m: "ro * q * (q * fm + ri * 10000) * 10000 = (ro * q) * M"
    by (simp add: M_def algebra_simps)
  have nz: "(of_int (ro * q) :: rat) \<noteq> 0" using assms by simp
  have "(of_int ((ro * q) * N) :: rat) / of_int ((ro * q) * M) = of_int N / of_int M"
    unfolding of_int_mult [of "ro * q"] using nz by (rule nonzero_mult_divide_mult_cancel_left)
  then show ?thesis
    unfolding n m N_def M_def .
qed

lemma price_ratio_bounds:
  fixes q fm ri :: int
  assumes "0 \<le> q" "0 \<le> fm" "fm \<le> 10000" "0 \<le> ri" "q * fm + ri * 10000 \<noteq> 0"
  shows "0 \<le> (of_int (q * fm * fm) :: rat) / of_int ((q * fm + ri * 10000) * 10000)"
    and "(of_int (q * fm * fm) :: rat) / of_int ((q * fm + ri * 10000) * 10000) \<le> 1"
proof -
  define N where "N = q * fm * fm"
  define M where "M = (q * fm + ri * 10000) * 10000"
  have x: "0 \<le> q * fm" using assms by simp
  have "0 \<le> q * fm + ri * 10000" using x assms by linarith
  with assms have den: "0 < q * fm + ri * 10000" by linarith
  have "q * fm * fm \<le> q * fm * 10000" using x assms by (intro mult_left_mono) simp_all
  also have "\<dots> \<le> (q * fm + ri * 10000) * 10000" using assms by simp
  finally have le: "N \<le> M" by (simp only: N_def M_def)
  have M: "0 < M" using den by (simp add: M_def)
  have N: "0 \<le> N" using x assms by (simp add: N_def)
  have "0 \<le> (of_int N :: rat) / of_int M" using N M by simp
  then show "0 \<le> (of_int (q * fm * fm) :: rat) / of_int ((q * fm + ri * 10000) * 10000)"
    by (simp only: N_def M_def)
  have "(of_int N :: rat) / of_int M \<le> 1" using le M by simp
  then show "(of_int (q * fm * fm) :: rat) / of_int ((q * fm + ri * 10000) * 10000) \<le> 1"
    by (simp only: N_def M_def)
qed

lemma price_ratio_strict:
  fixes q fm ri :: int
  assumes "0 < q" "0 < fm" "fm \<le> 10000" "0 < ri"
  shows "0 < (of_int (q * fm * fm) :: rat) / of_int ((q * fm + ri * 10000) * 10000)"
    and "(of_int (q * fm * fm) :: rat) / of_int ((q * fm + ri * 10000) * 10000) < 1"
proof -
  define N where "N = q * fm * fm"
  define M where "M = (q * fm + ri * 10000) * 10000"
  have x: "0 < q * fm" using assms by simp
  have den: "0 < q * fm + ri * 10000" using x assms by linarith
  have "q * fm * fm \<le> q * fm * 10000" using x assms by (intro mult_left_mono) simp_all
  also have "\<dots> < (q * fm + ri * 10000) * 10000" using assms by simp
  finally have le: "N < M" by (simp only: N_def M_def)
  have M: "0 < M" using den by (simp add: M_def)
  have N: "0 < N" using x assms by (simp add: N_def)
  have "0 < (of_int N :: rat) / of_int M" using N M by simp
  then show "0 < (of_int (q * fm * fm) :: rat) / of_int ((q * fm + ri * 10000) * 10000)"
    by (simp only: N_def M_def)
  have "(of_int N :: rat) / of_int M < 1" using le M by simp
  then show "(of_int (q * fm * fm) :: rat) / of_int ((q * fm + ri * 10000) * 10000) < 1"
    by (simp only: N_def M_def)
qed

subsection \<open>The constant-product quote of a checked input\<close>

lemma nonzero_quotient_factors:
  fixes q fm ro d :: int
  assumes "(q * fm * ro) div d \<noteq> 0"
  shows "q \<noteq> 0" and "fm \<noteq> 0" and "ro \<noteq> 0"
  using assms by auto

lemma finite_or_overflow_Finite [simp]: "finite_or_overflow (Finite r) = Inr (Finite r)"
  by (simp add: finite_or_overflow_def)

lemma swap_amounts_priced:
  fixes q fee ri ro :: int
  defines "fm \<equiv> 10000 - fee"
  defines "den \<equiv> q * fm + ri * 10000"
  assumes den: "den \<noteq> 0" and amt: "(q * fm * ro) div den \<noteq> 0"
  shows "swap_amounts ri ro uo fee q =
           rbind (finite_or_overflow
                    (fl_round (of_int (ro * q * den * fm - q * fm * ro * ri * 10000) /
                               of_int (ro * q * den * 10000))))
             (\<lambda>x. Inr ([(uo, (q * fm * ro) div den)], PFloat x))"
    and "ro * q * den * 10000 \<noteq> 0"
    and "(of_int (ro * q * den * fm - q * fm * ro * ri * 10000) :: rat) / of_int (ro * q * den * 10000) =
         of_int (q * fm * fm) / of_int (den * 10000)"
proof -
  have nz: "q \<noteq> 0" "ro \<noteq> 0"
    using amt by (auto dest: nonzero_quotient_factors)
  show pd: "ro * q * den * 10000 \<noteq> 0" using nz den by simp
  have "swap_amounts ri ro uo fee q =
      rbind (price_impact ri ro q fm (q * fm * ro) den) (\<lambda>p. Inr ([(uo, (q * fm * ro) div den)], p))"
    using den amt unfolding fm_def den_def by (rule swap_amounts_nonzero)
  also have "price_impact ri ro q fm (q * fm * ro) den =
      rbind (finite_or_overflow
                    (fl_round (of_int (ro * q * den * fm - q * fm * ro * ri * 10000) /
                               of_int (ro * q * den * 10000)))) (\<lambda>x. Inr (PFloat x))"
    using pd by (rule price_impact_rounds_once)
  finally show "swap_amounts ri ro uo fee q =
           rbind (finite_or_overflow
                    (fl_round (of_int (ro * q * den * fm - q * fm * ro * ri * 10000) /
                               of_int (ro * q * den * 10000))))
             (\<lambda>x. Inr ([(uo, (q * fm * ro) div den)], PFloat x))"
    by (simp add: rbind_def split: sum.splits)
  show "(of_int (ro * q * den * fm - q * fm * ro * ri * 10000) :: rat) / of_int (ro * q * den * 10000) =
         of_int (q * fm * fm) / of_int (den * 10000)"
    unfolding den_def using nz(2,1) by (rule price_ratio_simplifies)
qed

lemma swap_amounts_returns:
  fixes q fee ri ro :: int
  assumes "0 \<le> fee" "fee \<le> 10000" "0 \<le> q" "0 \<le> ri"
    and den: "q * (10000 - fee) + ri * 10000 \<noteq> 0"
  shows "\<exists>p. swap_amounts ri ro uo fee q =
           Inr ([(uo, (q * (10000 - fee) * ro) div (q * (10000 - fee) + ri * 10000))], p)"
proof (cases "(q * (10000 - fee) * ro) div (q * (10000 - fee) + ri * 10000) = 0")
  case True
  with den show ?thesis by (simp add: swap_amounts_zero)
next
  case False
  have fm: "0 \<le> 10000 - fee" "10000 - fee \<le> 10000" using assms by simp_all
  obtain r where r: "fl_round (of_int (q * (10000 - fee) * (10000 - fee)) /
        of_int ((q * (10000 - fee) + ri * 10000) * 10000)) = Finite r"
    using fl_round_unit [OF price_ratio_bounds [OF assms(3) fm assms(4) den]] by blast
  show ?thesis
    unfolding swap_amounts_priced(1) [OF den False] swap_amounts_priced(3) [OF den False] r
    by simp
qed

lemma int_div_less_if:
  fixes a b k :: int
  assumes "a < k * b" "0 < b"
  shows "a div b < k"
proof -
  have "(of_int a :: rat) < of_int (k * b)" using assms(1) by (simp only: of_int_less_iff)
  then have "(of_int a :: rat) < of_int k * of_int b" by (simp only: of_int_mult)
  moreover have "(0::rat) < of_int b" using assms(2) by simp
  ultimately have "(of_int a :: rat) / of_int b < of_int k" by (simp add: pos_divide_less_eq)
  then have "\<lfloor>(of_int a :: rat) / of_int b\<rfloor> < k" by (simp only: floor_less_iff)
  then show ?thesis by (simp only: floor_divide_of_int_eq)
qed

lemma int_div_cross_mono:
  fixes a b c d :: int
  assumes "a * d \<le> c * b" "0 < b" "0 < d"
  shows "a div b \<le> c div d"
proof -
  have "(of_int (a * d) :: rat) \<le> of_int (c * b)" using assms(1) by (simp only: of_int_le_iff)
  then have "(of_int a :: rat) * of_int d \<le> of_int c * of_int b" by (simp only: of_int_mult)
  moreover have "(0::rat) < of_int b" "(0::rat) < of_int d" using assms by simp_all
  ultimately have "(of_int a :: rat) / of_int b \<le> of_int c / of_int d"
    by (simp add: field_simps)
  then have "\<lfloor>(of_int a :: rat) / of_int b\<rfloor> \<le> \<lfloor>(of_int c :: rat) / of_int d\<rfloor>"
    by (rule floor_mono)
  then show ?thesis by (simp only: floor_divide_of_int_eq)
qed

lemma amount_lt_reserve:
  fixes x c ro :: int
  assumes "0 \<le> x" "0 < c" "0 < ro"
  shows "(x * ro) div (x + c) < ro"
proof (rule int_div_less_if)
  have "0 < ro * c" using assms by simp
  then show "x * ro < ro * (x + c)" by (simp add: algebra_simps)
  show "0 < x + c" using assms by simp
qed

lemma amount_mono:
  fixes x1 x2 c ro :: int
  assumes "0 \<le> x1" "x1 \<le> x2" "0 < c" "0 \<le> ro"
  shows "(x1 * ro) div (x1 + c) \<le> (x2 * ro) div (x2 + c)"
proof (rule int_div_cross_mono)
  have "x1 * (ro * c) \<le> x2 * (ro * c)" using assms by (intro mult_right_mono) simp_all
  then show "x1 * ro * (x2 + c) \<le> x2 * ro * (x1 + c)" by (simp add: algebra_simps)
  show "0 < x1 + c" "0 < x2 + c" using assms by simp_all
qed

subsection \<open>Exceptions of the arithmetic, the two loops\<close>

lemma finite_or_overflow_Inl: "finite_or_overflow x = Inl e \<Longrightarrow> e = OverflowError"
  by (cases x) (simp_all add: finite_or_overflow_def)

lemma as_float_Inl: "as_float a = Inl e \<Longrightarrow> e = OverflowError"
  by (cases a) (auto dest: finite_or_overflow_Inl)

lemma float_op_Inl: "float_op f a b = Inl e \<Longrightarrow> e = OverflowError"
  by (auto simp: float_op_def rbind_eq_Inl_iff dest: as_float_Inl)

lemma num_add_Inl: "num_add a b = Inl e \<Longrightarrow> e = OverflowError"
  by (cases a; cases b) (auto dest: float_op_Inl)

lemma num_sub_Inl: "num_sub a b = Inl e \<Longrightarrow> e = OverflowError"
  by (cases a; cases b) (auto dest: float_op_Inl)

lemma num_mul_Inl: "num_mul a b = Inl e \<Longrightarrow> e = OverflowError"
  by (cases a; cases b) (auto dest: float_op_Inl)

lemma num_truediv_Inl:
  "num_truediv a b = Inl e \<Longrightarrow> e = ZeroDivisionError \<or> e = OverflowError"
  by (cases a; cases b)
    (auto simp: rbind_eq_Inl_iff split: if_splits dest: as_float_Inl finite_or_overflow_Inl)

lemma num_pow_Inl: "num_pow a n = Inl e \<Longrightarrow> e = OverflowError"
proof (cases a)
  case (PInt i)
  then show "num_pow a n = Inl e \<Longrightarrow> e = OverflowError" by simp
next
  case (PFloat x)
  then show "num_pow a n = Inl e \<Longrightarrow> e = OverflowError"
    by (cases x) (auto simp: rbind_eq_Inl_iff dest: finite_or_overflow_Inl)
qed

lemma py_int_Inl: "py_int a = Inl e \<Longrightarrow> numeric_error e"
proof (cases a)
  case (PInt i)
  then show "py_int a = Inl e \<Longrightarrow> numeric_error e" by simp
next
  case (PFloat x)
  then show "py_int a = Inl e \<Longrightarrow> numeric_error e"
    by (cases x) (auto simp: numeric_error_def)
qed

lemma moved_less_than_1_Inl: "moved_less_than_1 x y = Inl e \<Longrightarrow> e = OverflowError"
  by (auto simp: moved_less_than_1_def rbind_eq_Inl_iff dest: num_sub_Inl)

lemma D_step_Inl: "D_step st D = Inl e \<Longrightarrow> e = ZeroDivisionError \<or> e = OverflowError"
  unfolding D_step_def Let_def
  by (auto simp: rbind_eq_Inl_iff dest: num_pow_Inl num_truediv_Inl num_mul_Inl num_add_Inl)

lemma D_loop_Inl: "D_loop n st D = Inl e \<Longrightarrow> e = ZeroDivisionError \<or> e = OverflowError"
proof (induction n arbitrary: D)
  case 0
  then show ?case by simp
next
  case (Suc n)
  then show ?case
    by (auto simp: rbind_eq_Inl_iff split: if_splits dest: D_step_Inl moved_less_than_1_Inl)
qed

lemma y_step_Inl: "y_step c b D out = Inl e \<Longrightarrow> e = ZeroDivisionError \<or> e = OverflowError"
  unfolding y_step_def
  by (auto simp: rbind_eq_Inl_iff dest: num_pow_Inl num_truediv_Inl num_mul_Inl num_add_Inl num_sub_Inl)

lemma y_loop_Inl: "y_loop n c b D out = Inl e \<Longrightarrow> e = ZeroDivisionError \<or> e = OverflowError"
proof (induction n arbitrary: out)
  case 0
  then show ?case by simp
next
  case (Suc n)
  then show ?case
    by (auto simp: rbind_eq_Inl_iff split: if_splits dest: y_step_Inl moved_less_than_1_Inl)
qed

lemma get_D_Inl: "get_D st = Inl e \<Longrightarrow> e = ZeroDivisionError \<or> e = OverflowError"
  by (auto simp: get_D_def Let_def split: if_splits dest: D_loop_Inl)

lemma D_iterate_shift:
  "D_iterate st D0 (Suc k) = rbind (D_step st D0) (\<lambda>D1. D_iterate st D1 k)"
proof (induction k)
  case 0
  then show ?case by (simp add: rbind_def split: sum.splits)
next
  case (Suc k)
  have "D_iterate st D0 (Suc (Suc k)) = rbind (D_iterate st D0 (Suc k)) (D_step st)" by simp
  also have "\<dots> = rbind (rbind (D_step st D0) (\<lambda>D1. D_iterate st D1 k)) (D_step st)"
    by (simp only: Suc.IH)
  also have "\<dots> = rbind (D_step st D0) (\<lambda>D1. D_iterate st D1 (Suc k))"
    by (cases "D_step st D0") simp_all
  finally show ?case .
qed

lemma D_settled_shift:
  assumes "D_step st D0 = Inr D1" "1 \<le> k"
  shows "D_settled st D0 (Suc k) = D_settled st D1 k"
proof -
  obtain j where k: "k = Suc j" using assms(2) by (cases k) simp_all
  show ?thesis
    unfolding D_settled_def k by (simp add: D_iterate_shift [of st D0 j] assms(1) del: D_iterate.simps)
qed

lemma D_settled_1:
  assumes "D_step st D0 = Inr D1"
  shows "D_settled st D0 1 \<longleftrightarrow> moved_less_than_1 D1 D0 = Inr True"
  by (simp add: D_settled_def assms)

lemma float_op_Inr:
  "float_op f a b = Inr r \<Longrightarrow> \<exists>x y. as_float a = Inr x \<and> as_float b = Inr y \<and> r = PFloat (f x y)"
  by (auto simp: float_op_def rbind_eq_Inr_iff)

lemma num_truediv_Inr: "num_truediv a b = Inr r \<Longrightarrow> \<exists>x. r = PFloat x"
  by (cases a; cases b) (auto simp: rbind_eq_Inr_iff split: if_splits)

lemma num_mul_float_Inr:
  "num_mul a (PFloat y) = Inr r \<Longrightarrow> \<exists>x. as_float a = Inr x \<and> r = PFloat (fmul x y)"
  by (cases a) (auto dest: float_op_Inr)

lemma num_mul_float_Inr2:
  "num_mul (PFloat x) b = Inr r \<Longrightarrow> \<exists>y. as_float b = Inr y \<and> r = PFloat (fmul x y)"
  by (cases b) (auto dest: float_op_Inr)

lemma num_add_float_Inr:
  "num_add a (PFloat y) = Inr r \<Longrightarrow> \<exists>x. as_float a = Inr x \<and> r = PFloat (fadd x y)"
  by (cases a) (auto dest: float_op_Inr)

lemma D_step_Inr:
  assumes "D_step st D = Inr D'"
  shows "(\<exists>x. as_float D = Inr x) \<and> (\<exists>y. D' = PFloat y)"
proof -
  from assms obtain D3 D_P t1 t2 lhs t3 t4 rhs where
    s: "num_truediv D3 (PInt (N_COINS ^ nat N_COINS * reserve_a st * reserve_b st)) = Inr D_P"
      "num_mul D_P (PInt N_COINS) = Inr t1"
      "num_add (PInt (Ann * (reserve_a st + reserve_b st))) t1 = Inr t2"
      "num_mul D t2 = Inr lhs"
      "num_truediv lhs rhs = Inr D'"
    unfolding D_step_def Let_def by (auto simp: rbind_eq_Inr_iff)
  from s(1) obtain p where p: "D_P = PFloat p" by (auto dest: num_truediv_Inr)
  from num_mul_float_Inr2 [OF s(2) [unfolded p]] obtain a where a: "t1 = PFloat a" by blast
  from num_add_float_Inr [OF s(3) [unfolded a]] obtain b where b: "t2 = PFloat b" by blast
  from num_mul_float_Inr [OF s(4) [unfolded b]] have "\<exists>x. as_float D = Inr x" by blast
  moreover from s(5) have "\<exists>y. D' = PFloat y" by (rule num_truediv_Inr)
  ultimately show ?thesis by simp
qed

lemma moved_after_D_step:
  assumes "D_step st D = Inr D'"
  shows "\<exists>stop. moved_less_than_1 D' D = Inr stop"
proof -
  from D_step_Inr [OF assms] obtain x y where x: "as_float D = Inr x" and y: "D' = PFloat y"
    by blast
  have "num_sub (PFloat y) D = Inr (PFloat (fsub y x))"
    using x by (cases D) (simp_all add: float_op_def)
  then show ?thesis by (simp add: moved_less_than_1_def y)
qed

lemma D_iterate_raises:
  "D_step st D0 = Inl e \<Longrightarrow> 0 < m \<Longrightarrow> D_iterate st D0 m = Inl e"
  by (cases m) (simp_all add: D_iterate_shift del: D_iterate.simps)

lemma find_map_comp: "find P (map f xs) = map_option f (find (P \<circ> f) xs)"
  by (induction xs) simp_all

lemma upt_1_Suc_Suc: "[1..<Suc (Suc n)] = 1 # map Suc [1..<Suc n]"
  by (simp add: upt_conv_Cons map_Suc_upt del: upt_Suc)

lemma D_stop_1: "D_settled st D0 1 \<Longrightarrow> D_stop st D0 (Suc n) = 1"
  by (simp add: D_stop_def upt_conv_Cons del: upt_Suc)

lemma D_stop_Suc:
  assumes "D_step st D0 = Inr D1" "\<not> D_settled st D0 1" "0 < n"
  shows "D_stop st D0 (Suc n) = Suc (D_stop st D1 n)"
proof -
  obtain j where n: "n = Suc j" using assms(3) by (cases n) simp_all
  have eq: "(D_settled st D0 \<circ> Suc) k = D_settled st D1 k" if "k \<in> set [1..<Suc n]" for k
    using that D_settled_shift [OF assms(1), of k] by auto
  have "find (D_settled st D0) [1..<Suc (Suc n)] =
      map_option Suc (find (D_settled st D0 \<circ> Suc) [1..<Suc n])"
    unfolding upt_1_Suc_Suc using assms(2) by (simp add: find_map_comp del: upt_Suc)
  also have "find (D_settled st D0 \<circ> Suc) [1..<Suc n] = find (D_settled st D1) [1..<Suc n]"
    using eq by (intro find_cong) auto
  finally show ?thesis
    by (simp add: D_stop_def del: upt_Suc split: option.splits)
qed

lemma D_loop_eq_iterate:
  "0 < n \<Longrightarrow> D_loop n st D0 = D_iterate st D0 (D_stop st D0 n)"
proof (induction n arbitrary: D0)
  case 0
  then show ?case by simp
next
  case (Suc n)
  show ?case
  proof (cases "D_step st D0")
    case (Inl e)
    have "0 < D_stop st D0 (Suc n)"
      by (auto simp: D_stop_def split: option.splits dest!: find_Some_iff [THEN iffD1] simp del: upt_Suc)
    then show ?thesis using Inl by (simp add: D_iterate_raises del: D_iterate.simps)
  next
    case (Inr D1)
    from moved_after_D_step [OF Inr] obtain stop where mv: "moved_less_than_1 D1 D0 = Inr stop" ..
    have it1: "D_iterate st D0 1 = Inr D1" by (simp add: Inr)
    have s1: "D_settled st D0 1 \<longleftrightarrow> stop" using D_settled_1 [OF Inr] mv by simp
    show ?thesis
    proof (cases stop)
      case True
      then show ?thesis using Inr mv it1 D_stop_1 [of st D0 n] s1 by simp
    next
      case False
      show ?thesis
      proof (cases "n = 0")
        case True
        then have "D_stop st D0 (Suc n) = 1" using s1 False by (simp add: D_stop_def)
        then show ?thesis using Inr mv it1 True False by simp
      next
        case n: False
        then have "D_stop st D0 (Suc n) = Suc (D_stop st D1 n)"
          using D_stop_Suc [OF Inr] s1 False by simp
        moreover have "D_loop n st D1 = D_iterate st D1 (D_stop st D1 n)"
          using n by (intro Suc.IH) simp
        ultimately show ?thesis
          using Inr mv False by (simp add: D_iterate_shift del: D_iterate.simps)
      qed
    qed
  qed
qed

lemma D_stop_props:
  assumes "0 < n"
  shows "1 \<le> D_stop st D0 n" "D_stop st D0 n \<le> n"
    "\<forall>k. 1 \<le> k \<and> k < D_stop st D0 n \<longrightarrow> \<not> D_settled st D0 k"
    "D_stop st D0 n = n \<or> D_settled st D0 (D_stop st D0 n)"
proof -
  show "1 \<le> D_stop st D0 n" "D_stop st D0 n \<le> n"
    using assms
    by (auto simp: D_stop_def find_Some_iff split: option.splits simp del: upt_Suc)
  show "D_stop st D0 n = n \<or> D_settled st D0 (D_stop st D0 n)"
    by (auto simp: D_stop_def find_Some_iff split: option.splits simp del: upt_Suc)
  show "\<forall>k. 1 \<le> k \<and> k < D_stop st D0 n \<longrightarrow> \<not> D_settled st D0 k"
  proof (cases "find (D_settled st D0) [1..<Suc n]")
    case None
    then have "D_stop st D0 n = n" by (simp add: D_stop_def)
    moreover have "\<not> D_settled st D0 k" if "1 \<le> k" "k < n" for k
    proof -
      have "k \<in> set [1..<Suc n]" using that by simp
      with None show ?thesis unfolding find_None_iff by blast
    qed
    ultimately show ?thesis by simp
  next
    case (Some m)
    then obtain i where i: "i < length [1..<Suc n]" "[1..<Suc n] ! i = m"
      "\<forall>j<i. \<not> D_settled st D0 ([1..<Suc n] ! j)"
      by (auto simp: find_Some_iff simp del: upt_Suc)
    have m: "m = Suc i" using i(1,2) by (simp del: upt_Suc)
    have "\<not> D_settled st D0 k" if k1: "1 \<le> k" and k2: "k < m" for k
    proof -
      from k1 obtain j where j: "k = Suc j" by (cases k) simp_all
      with k2 m have "j < i" by simp
      with i(3) have "\<not> D_settled st D0 ([1..<Suc n] ! j)" by blast
      moreover have "[1..<Suc n] ! j = k" using \<open>j < i\<close> i(1) j by (simp del: upt_Suc)
      ultimately show ?thesis by simp
    qed
    then show ?thesis using Some by (simp add: D_stop_def)
  qed
qed

lemma D_stop_eqI:
  assumes "1 \<le> m" "m \<le> n" "D_settled st D0 m" "\<forall>k. 1 \<le> k \<and> k < m \<longrightarrow> \<not> D_settled st D0 k"
  shows "D_stop st D0 n = m"
proof -
  have n: "0 < n" using assms(1,2) by simp
  note p = D_stop_props [OF n, of st D0]
  have "\<not> D_stop st D0 n < m"
  proof
    assume l: "D_stop st D0 n < m"
    then have "D_stop st D0 n \<noteq> n" using assms(2) by simp
    with p(4) have "D_settled st D0 (D_stop st D0 n)" by simp
    with assms(4) p(1) l show False by blast
  qed
  moreover have "\<not> m < D_stop st D0 n"
    using p(3) assms(1,3) by blast
  ultimately show ?thesis by simp
qed

lemma D_loop_256: "D_loop 256 st D = D_loop (Suc 255) st D"
  by simp

lemma D_loop_first_raises: "D_step st D = Inl e \<Longrightarrow> D_loop (Suc n) st D = Inl e"
  by simp

lemma D_loop_first_settles:
  "D_step st D = Inr D' \<Longrightarrow> moved_less_than_1 D' D = Inr True \<Longrightarrow> D_loop (Suc n) st D = Inr D'"
  by simp

lemma D_step_pool_A: "D_step pool_A (PInt 2000000) = Inr (PFloat (Finite 2000000))"
  by (simp add: D_step_def pool_A_def Ann_def amp_def N_COINS_def float_op_def fl_round_numeral)

lemma moved_pool_A: "moved_less_than_1 (PFloat (Finite 2000000)) (PInt 2000000) = Inr True"
  by (simp add: moved_less_than_1_def float_op_def fsub_def fl_round_numeral)

lemma get_D_pool_A: "get_D pool_A = Inr (PFloat (Finite 2000000))"
proof -
  have "D_loop 256 pool_A (PInt 2000000) = Inr (PFloat (Finite 2000000))"
    unfolding D_loop_256 using D_step_pool_A moved_pool_A by (rule D_loop_first_settles)
  then show ?thesis by (simp add: get_D_def pool_A_def del: D_loop.simps)
qed

lemma y_loop_256: "y_loop 256 c b D out = y_loop (Suc 255) c b D out"
  by simp

lemma y_loop_first_settles:
  "y_step c b D out = Inr out' \<Longrightarrow> moved_less_than_1 out' out = Inr True \<Longrightarrow>
   y_loop (Suc n) c b D out = Inr out'"
  by simp

lemma get_D_empty: "reserve_a st = 0 \<Longrightarrow> reserve_b st = 0 \<Longrightarrow> get_D st = Inr (PInt 0)"
  by (simp add: get_D_def)

lemma get_y_Inr:
  assumes "get_y st in_assets out_unit = Inr projected"
  shows "\<exists>out y. get_y_out st in_assets out_unit = Inr out \<and> py_int out = Inr y \<and>
           projected = [(out_unit, y)]"
  using assms by (auto simp: get_y_split rbind_eq_Inr_iff)

lemma py_int_floor: "py_int (PFloat (Finite a)) = Inr y \<Longrightarrow> 0 \<le> a \<Longrightarrow> y = \<lfloor>a\<rfloor>"
  by simp

lemma get_amount_out_StableSwap_single:
  "get_amount_out_StableSwap st [(u, q)] =
     rbind (get_y st [(u, q)] (if u = unit_b st then unit_a st else unit_b st))
       (\<lambda>out_asset. rbind (quantity out_asset) (\<lambda>y. rbind (unit out_asset) (\<lambda>k.
          Inr (AList.update k
                 ((if (if u = unit_b st then unit_a st else unit_b st) = unit_b st
                   then reserve_b st else reserve_a st) - y) out_asset, PInt 0))))"
  by (simp add: get_amount_out_StableSwap_def Let_def)

lemma get_y_out_empty_1000:
  "get_y_out pool_empty [(''lovelace'', 1000)] ''token'' = Inr (PFloat (Finite 0))"
proof -
  have s: "y_step (PFloat (Finite 0)) (PFloat (Finite 997)) (PInt 0) (PInt 0) = Inr (PFloat (Finite 0))"
    by (simp add: y_step_def float_op_def fsub_def fl_round_numeral)
  have m: "moved_less_than_1 (PFloat (Finite 0)) (PInt 0) = Inr True"
    by (simp add: moved_less_than_1_def float_op_def fsub_def)
  have l: "y_loop 256 (PFloat (Finite 0)) (PFloat (Finite 997)) (PInt 0) (PInt 0) = Inr (PFloat (Finite 0))"
    unfolding y_loop_256 using s m by (rule y_loop_first_settles)
  have D: "get_D pool_empty = Inr (PInt 0)" by (simp add: get_D_empty pool_empty_def)
  show ?thesis
    unfolding get_y_out_def D
    by (simp add: pool_empty_def float_op_def Ann_def amp_def N_COINS_def fl_round_numeral l
        del: y_loop.simps)
qed

subsection \<open>Which exceptions reject the input\<close>

lemma numeric_error_simps [simp]:
  "numeric_error ZeroDivisionError" "numeric_error OverflowError"
  "\<not> numeric_error (AssertionError m)" "\<not> numeric_error IndexError"
  by (simp_all add: numeric_error_def)

lemma numeric_not_InvalidInput: "numeric_error e \<Longrightarrow> \<not> InvalidInput e"
  by (auto simp: numeric_error_def InvalidInput_def)

lemma swap_amounts_Inl: "swap_amounts ri ro uo fee q = Inl e \<Longrightarrow> numeric_error e"
  by (auto simp: swap_amounts_def Let_def int_floordiv_def price_impact_def rbind_eq_Inl_iff
      simp del: num_truediv.simps split: if_splits dest!: num_truediv_Inl)

lemma get_y_out_checked_Inl:
  assumes "u = unit_a st \<or> u = unit_b st" "out_unit = unit_a st \<or> out_unit = unit_b st"
    and "get_y_out st [(u, q)] out_unit = Inl e"
  shows "numeric_error e"
proof (cases "get_D st")
  case (Inl e')
  then have "e = e'" using assms(3) by (simp add: get_y_out_def)
  with Inl show ?thesis by (auto dest: get_D_Inl)
next
  case (Inr D)
  have "e = ZeroDivisionError \<or> e = OverflowError"
    using assms unfolding get_y_out_def Inr
    by (auto simp: rbind_eq_Inl_iff
        simp del: y_loop.simps num_truediv.simps num_add.simps num_mul.simps num_pow.simps
        dest!: num_truediv_Inl num_add_Inl num_pow_Inl num_mul_Inl y_loop_Inl)
  then show ?thesis by auto
qed

lemma get_y_checked_Inl:
  assumes "u = unit_a st \<or> u = unit_b st" "out_unit = unit_a st \<or> out_unit = unit_b st"
    and "get_y st [(u, q)] out_unit = Inl e"
  shows "numeric_error e"
  using assms(3) get_y_out_checked_Inl [OF assms(1,2)]
  by (auto simp: get_y_split rbind_eq_Inl_iff dest: py_int_Inl)

lemma get_y_rejects:
  assumes "get_D st = Inr D"
  shows "1 < length in_assets \<Longrightarrow>
           get_y st in_assets out_unit = Inl (ValueError ''Only one input asset allowed.'')"
    and "u \<noteq> unit_a st \<Longrightarrow> u \<noteq> unit_b st \<Longrightarrow>
           get_y st [(u, q)] out_unit = Inl (ValueError ''Invalid input token.'')"
  by (simp_all add: get_y_split get_y_out_def assms)

lemma get_y_D_raises: "get_D st = Inl e \<Longrightarrow> get_y st in_assets out_unit = Inl e"
  by (simp add: get_y_split get_y_out_def)

lemma InvalidInput_simps [simp]:
  "InvalidInput (AssertionError ''Asset should only have one token.'')"
  "InvalidInput (AssertionError ''Asset is invalid for pool'')"
  "InvalidInput (ValueError ''Only one input asset allowed.'')"
  "InvalidInput (ValueError ''Invalid input token.'')"
  "\<not> InvalidInput IndexError" "\<not> InvalidInput ZeroDivisionError" "\<not> InvalidInput OverflowError"
  by (simp_all add: InvalidInput_def)

lemma ConstantProduct_invalid_iff:
  "(\<exists>e. get_amount_out_ConstantProduct st asset = Inl e \<and> InvalidInput e) \<longleftrightarrow>
     (length asset \<noteq> 1 \<or> (\<exists>u q. asset = [(u, q)] \<and> u \<noteq> unit_a st \<and> u \<noteq> unit_b st))"
proof (cases "\<exists>u q. asset = [(u, q)]")
  case False
  then have "length asset \<noteq> 1" by (cases asset) (auto simp: length_Suc_conv)
  then show ?thesis by (simp add: get_amount_out_ConstantProduct_def)
next
  case True
  then obtain u q where a: "asset = [(u, q)]" by blast
  show ?thesis
  proof (cases "u = unit_a st \<or> u = unit_b st")
    case True
    have "\<not> InvalidInput e" if "get_amount_out_ConstantProduct st asset = Inl e" for e
      using that unfolding a get_amount_out_ConstantProduct_single [OF True]
      by (auto dest!: swap_amounts_Inl numeric_not_InvalidInput)
    then show ?thesis using True a by auto
  next
    case False
    then show ?thesis by (auto simp: a get_amount_out_ConstantProduct_def)
  qed
qed

lemma StableSwap_invalid_iff:
  "(\<exists>e. get_amount_out_StableSwap st asset = Inl e \<and> InvalidInput e) \<longleftrightarrow>
     (\<exists>D. get_D st = Inr D) \<and>
     (1 < length asset \<or> (\<exists>u q. asset = [(u, q)] \<and> u \<noteq> unit_a st \<and> u \<noteq> unit_b st))"
proof (cases asset)
  case Nil
  then show ?thesis by (simp add: get_amount_out_StableSwap_def unit_def)
next
  case (Cons a rest)
  obtain u q where a: "a = (u, q)" by (cases a)
  define ou where "ou = (if u = unit_b st then unit_a st else unit_b st)"
  have ou: "ou = unit_a st \<or> ou = unit_b st" by (simp add: ou_def)
  have g: "get_amount_out_StableSwap st asset = Inl e \<longleftrightarrow> get_y st asset ou = Inl e"
    if "\<And>r. get_y st asset ou \<noteq> Inr r" for e
    using that by (cases "get_y st asset ou") (simp_all add: get_amount_out_StableSwap_def Cons a ou_def Let_def)
  show ?thesis
  proof (cases "get_D st")
    case (Inl e')
    then have y: "get_y st asset ou = Inl e'" by (rule get_y_D_raises)
    then have "get_amount_out_StableSwap st asset = Inl e'" by (simp add: g)
    moreover have "\<not> InvalidInput e'" using Inl by (auto dest!: get_D_Inl)
    ultimately show ?thesis using Inl by auto
  next
    case (Inr D)
    show ?thesis
    proof (cases "rest = []")
      case False
      then have l: "1 < length asset" by (cases rest) (simp_all add: Cons)
      from get_y_rejects(1) [OF Inr l]
      have "get_y st asset ou = Inl (ValueError ''Only one input asset allowed.'')" .
      then have "get_amount_out_StableSwap st asset = Inl (ValueError ''Only one input asset allowed.'')"
        by (simp add: g)
      then show ?thesis using Inr l by auto
    next
      case True
      then have s: "asset = [(u, q)]" by (simp add: Cons a)
      show ?thesis
      proof (cases "u = unit_a st \<or> u = unit_b st")
        case False
        then have "get_y st [(u, q)] ou = Inl (ValueError ''Invalid input token.'')"
          using get_y_rejects(2) [OF Inr] by simp
        then have "get_amount_out_StableSwap st asset = Inl (ValueError ''Invalid input token.'')"
          using g by (simp add: s)
        then show ?thesis using Inr False s by auto
      next
        case True
        have "\<not> InvalidInput e" if "get_amount_out_StableSwap st asset = Inl e" for e
        proof (cases "get_y st [(u, q)] ou")
          case (Inl e')
          then have "e = e'" using that g [of e] by (simp add: s)
          then show ?thesis using get_y_checked_Inl [OF True ou Inl] numeric_not_InvalidInput by simp
        next
          case (Inr r)
          then obtain y where "r = [(ou, y)]" by (auto dest: get_y_Inr)
          then show ?thesis
            using that Inr by (simp add: get_amount_out_StableSwap_def s ou_def [symmetric] Let_def)
        qed
        then show ?thesis using True s by auto
      qed
    qed
  qed
qed

subsection \<open>The empty pool\<close>

lemma y_step_empty:
  assumes "nonzero_float B"
  shows "y_step (PFloat (Finite 0)) (PFloat B) (PInt 0) (PInt 0) = Inr (PFloat (Finite 0))"
proof -
  have n: "nonzero_float (fsub (fadd (Finite 0) B) (Finite 0))"
    using assms by (intro nonzero_float_add_zero)
  have z: "fadd (Finite 0) (Finite 0) = Finite 0" by simp
  show ?thesis
    by (simp add: y_step_def float_op_def nonzero_float_eq_zero [OF n] zero_by_nonzero_float [OF n] z
        del: fadd.simps)
qed

lemma moved_zero: "moved_less_than_1 (PFloat (Finite 0)) (PInt 0) = Inr True"
  by (simp add: moved_less_than_1_def float_op_def fsub_def)

lemma y_loop_empty:
  assumes "nonzero_float B"
  shows "y_loop 256 (PFloat (Finite 0)) (PFloat B) (PInt 0) (PInt 0) = Inr (PFloat (Finite 0))"
  unfolding y_loop_256 using y_step_empty [OF assms] moved_zero by (rule y_loop_first_settles)

lemma get_y_out_empty:
  assumes "reserve_a st = 0" "reserve_b st = 0"
    and "u = unit_a st \<or> u = unit_b st" "out_unit = unit_a st \<or> out_unit = unit_b st"
    and "q * (10000 - volume_fee st) \<noteq> 0"
  shows "get_y_out st [(u, q)] out_unit = Inr (PFloat (Finite 0)) \<or>
         get_y_out st [(u, q)] out_unit = Inl OverflowError"
proof -
  define x :: rat where "x = of_int (q * (10000 - volume_fee st)) / of_int 10000"
  have D: "get_D st = Inr (PInt 0)" using assms(1,2) by (rule get_D_empty)
  have v: "u \<in> set [unit_a st, unit_b st]" "out_unit \<in> set [unit_a st, unit_b st]"
    using assms(3,4) by auto
  have q: "num_truediv (PInt (q * (10000 - volume_fee st))) (PInt 10000) =
      rbind (finite_or_overflow (fl_round x)) (\<lambda>f. Inr (PFloat f))"
    by (simp add: x_def)
  have start: "get_y_out st [(u, q)] out_unit =
      rbind (finite_or_overflow (fl_round x)) (\<lambda>f.
        rbind (num_add (PInt 0) (PFloat f)) (\<lambda>in_reserve.
        rbind (num_pow (PInt 0) 3) (\<lambda>D3.
        rbind (num_mul (PInt 1200) in_reserve) (\<lambda>cd.
        rbind (num_truediv D3 cd) (\<lambda>c.
        rbind (num_truediv (PInt 0) (PInt 300)) (\<lambda>t.
        rbind (num_add in_reserve t) (\<lambda>b.
        y_loop 256 c b (PInt 0) (PInt 0))))))))"
    using assms(3,4)
    by (auto simp add: get_y_out_def D q assms(1,2) Ann_def amp_def N_COINS_def rbind_assoc
        simp del: y_loop.simps num_truediv.simps num_add.simps num_mul.simps num_pow.simps)
  show ?thesis
  proof (cases "fl_round x")
    case (Finite r)
    have "1 \<le> \<bar>q * (10000 - volume_fee st)\<bar>" using assms(5) by linarith
    then have "(1 :: rat) \<le> \<bar>of_int (q * (10000 - volume_fee st))\<bar>"
      by (metis of_int_1 of_int_abs of_int_le_iff)
    then have "1 / 10000 \<le> \<bar>x\<bar>" by (simp add: x_def abs_divide divide_right_mono)
    moreover have "pow2 (- 1022) \<le> 1 / 10000" by (simp add: pow2_def)
    ultimately have "pow2 (- 1022) \<le> \<bar>x\<bar>" by linarith
    then have "nonzero_float (fl_round x)" by (rule fl_round_keeps_normal)
    then have f: "nonzero_float (Finite r)" by (simp only: Finite)
    define R where "R = fadd (Finite 0) (Finite r)"
    have R: "nonzero_float R" unfolding R_def using f by (rule nonzero_float_add_zero)
    have cd: "nonzero_float (fmul (Finite 1200) R)" using R by (rule nonzero_float_times_1200)
    have B: "nonzero_float (fadd R (Finite 0))" using R by (rule nonzero_float_add_zero)
    have a: "num_add (PInt 0) (PFloat (Finite r)) = Inr (PFloat R)"
      by (simp add: float_op_def R_def del: fadd.simps)
    have m: "num_mul (PInt 1200) (PFloat R) = Inr (PFloat (fmul (Finite 1200) R))"
      by (simp add: float_op_def fl_round_numeral del: fmul.simps)
    have c: "num_truediv (PInt 0) (PFloat (fmul (Finite 1200) R)) = Inr (PFloat (Finite 0))"
      by (simp add: nonzero_float_eq_zero [OF cd] zero_by_nonzero_float [OF cd])
    have t: "num_truediv (PInt 0) (PInt 300) = Inr (PFloat (Finite 0))" by simp
    have b: "num_add (PFloat R) (PFloat (Finite 0)) = Inr (PFloat (fadd R (Finite 0)))"
      by (simp add: float_op_def)
    have "get_y_out st [(u, q)] out_unit = Inr (PFloat (Finite 0))"
      unfolding start Finite finite_or_overflow_Finite rbind_Inr a
      by (simp add: m c t b y_loop_empty [OF B]
          del: y_loop.simps num_truediv.simps num_add.simps num_mul.simps)
    then show ?thesis by simp
  qed (simp_all add: start finite_or_overflow_def)
qed

subsection \<open>Two quotes worked through\<close>

text \<open>
  \<^verbatim>\<open>_get_D\<close> on the pool far from balance (three passes) and \<^verbatim>\<open>_get_y\<close> on the balanced pool
  for an input of 1000 (six passes), every rounding checked against its exponent and its
  53-bit significand.
\<close>

lemma D_loop_moves:
  "0 < n \<Longrightarrow> D_step st D = Inr D' \<Longrightarrow> moved_less_than_1 D' D = Inr False \<Longrightarrow>
   D_loop n st D = D_loop (n - 1) st D'"
  by (cases n) simp_all

lemma D_loop_settles:
  "0 < n \<Longrightarrow> D_step st D = Inr D' \<Longrightarrow> moved_less_than_1 D' D = Inr True \<Longrightarrow>
   D_loop n st D = Inr D'"
  by (cases n) simp_all

lemma y_loop_moves:
  "0 < n \<Longrightarrow> y_step c b D out = Inr out' \<Longrightarrow> moved_less_than_1 out' out = Inr False \<Longrightarrow>
   y_loop n c b D out = y_loop (n - 1) c b D out'"
  by (cases n) simp_all

lemma y_loop_settles:
  "0 < n \<Longrightarrow> y_step c b D out = Inr out' \<Longrightarrow> moved_less_than_1 out' out = Inr True \<Longrightarrow>
   y_loop n c b D out = Inr out'"
  by (cases n) simp_all

lemma pool_A_fields:
  "unit_a pool_A = ''lovelace''" "unit_b pool_A = ''token''"
  "reserve_a pool_A = 1000000" "reserve_b pool_A = 1000000" "volume_fee pool_A = 30"
  by (simp_all add: pool_A_def)

lemma pool_lopsided_fields:
  "unit_a pool_lopsided = ''lovelace''" "unit_b pool_lopsided = ''token''"
  "reserve_a pool_lopsided = 1000000" "reserve_b pool_lopsided = 10000000"
  "volume_fee pool_lopsided = 30"
  by (simp_all add: pool_lopsided_def)

lemma roundings_D_lopsided:
  "fl_round (139 / 268435456) = Finite (139 / 268435456)"
  "fl_round (7502481651 / 536870912) = Finite (7502481651 / 536870912)"
  "fl_round (19408909461657 / 268435456) = Finite (19408909461657 / 268435456)"
  "fl_round (150627693720294719488 / 13784047789493) = Finite (5866754710594757 / 536870912)"
  "fl_round (77121483545033649946624 / 7057442018300401) = Finite (5866754710595035 / 536870912)"
  "fl_round (134662000000 / 12323) = Finite (2933381106538343 / 268435456)"
  "fl_round (39823023899249024 / 1220703125) = Finite (8757175566085169 / 268435456)"
  "fl_round (39823176678035376 / 1220703125) = Finite (8757209162495583 / 268435456)"
  "fl_round (8757175566085169 / 134217728) = Finite (8757175566085169 / 134217728)"
  "fl_round (8757209162495583 / 134217728) = Finite (8757209162495583 / 134217728)"
  "fl_round (26271526698255507 / 268435456) = Finite (6567881674563877 / 67108864)"
  "fl_round (26271627487486749 / 268435456) = Finite (6567906871871687 / 67108864)"
  "fl_round (1754159658467915465 / 536870912) = Finite (6852186165890295 / 2097152)"
  "fl_round (877080950854964557 / 268435456) = Finite (6852194928554411 / 2097152)"
  "fl_round (451675677966085169 / 134217728) = Finite (7057432468220081 / 2097152)"
  "fl_round (225837838983053317 / 67108864) = Finite (13784047789493 / 4096)"
  "fl_round (451675711562495583 / 134217728) = Finite (7057432993163993 / 2097152)"
  "fl_round (225838144585612839 / 67108864) = Finite (7057442018300401 / 2097152)"
  "fl_round (41404225177636504852058845897835 / 1125899906842624) = Finite 36774339287181328"
  "fl_round (20702140602807603875555141483599 / 562949953421312) = Finite 36774389050022912"
  "fl_round 37032050000000000 = Finite 37032050000000000"
  "fl_round (201926720595144610243623968454225770109061667875 / 154742504910672534362390528) = Finite 1304920847130592018432"
  "fl_round (25240936909453185159729034607167203743183839607 / 19342813113834066795298816) = Finite 1304925853385863200768"
  apply (rule fl_round_normal [where e = "- 21" and n = 4890627720347648]; simp add: pow2_def)
  apply (rule fl_round_normal [where e = 3 and n = 7866922199678976]; simp add: pow2_def)
  apply (rule fl_round_normal [where e = 16 and n = 4968680822184192]; simp add: pow2_def)
  apply (rule fl_round_normal [where e = 23 and n = 5866754710594757]; simp add: pow2_def)
  apply (rule fl_round_normal [where e = 23 and n = 5866754710595035]; simp add: pow2_def)
  apply (rule fl_round_normal [where e = 23 and n = 5866762213076686]; simp add: pow2_def)
  apply (rule fl_round_normal [where e = 24 and n = 8757175566085169]; simp add: pow2_def)
  apply (rule fl_round_normal [where e = 24 and n = 8757209162495583]; simp add: pow2_def)
  apply (rule fl_round_normal [where e = 25 and n = 8757175566085169]; simp add: pow2_def)
  apply (rule fl_round_normal [where e = 25 and n = 8757209162495583]; simp add: pow2_def)
  apply (rule fl_round_normal [where e = 26 and n = 6567881674563877]; simp add: pow2_def)
  apply (rule fl_round_normal [where e = 26 and n = 6567906871871687]; simp add: pow2_def)
  apply (rule fl_round_normal [where e = 31 and n = 6852186165890295]; simp add: pow2_def)
  apply (rule fl_round_normal [where e = 31 and n = 6852194928554411]; simp add: pow2_def)
  apply (rule fl_round_normal [where e = 31 and n = 7057432468220081]; simp add: pow2_def)
  apply (rule fl_round_normal [where e = 31 and n = 7057432468220416]; simp add: pow2_def)
  apply (rule fl_round_normal [where e = 31 and n = 7057432993163993]; simp add: pow2_def)
  apply (rule fl_round_normal [where e = 31 and n = 7057442018300401]; simp add: pow2_def)
  apply (rule fl_round_normal [where e = 55 and n = 4596792410897666]; simp add: pow2_def)
  apply (rule fl_round_normal [where e = 55 and n = 4596798631252864]; simp add: pow2_def)
  apply (rule fl_round_normal [where e = 55 and n = 4629006250000000]; simp add: pow2_def)
  apply (rule fl_round_normal [where e = 70 and n = 4977877987406128]; simp add: pow2_def)
  apply (rule fl_round_normal [where e = 70 and n = 4977897084754422]; simp add: pow2_def)
  done

lemma D_step_lopsided_1:
  "D_step pool_lopsided (PInt 11000000) = Inr (PFloat (Finite (2933381106538343 / 268435456)))"
  by (simp add: D_step_def pool_lopsided_def Ann_def amp_def N_COINS_def float_op_def power_divide
      fl_round_numeral roundings_D_lopsided)

lemma D_moved_lopsided_1:
  "moved_less_than_1 (PFloat (Finite (2933381106538343 / 268435456))) (PInt 11000000) = Inr False"
  by (simp add: moved_less_than_1_def float_op_def fsub_def fl_round_numeral fl_round_minus
      roundings_D_lopsided)

lemma D_step_lopsided_2:
  "D_step pool_lopsided (PFloat (Finite (2933381106538343 / 268435456))) = Inr (PFloat (Finite (5866754710595035 / 536870912)))"
  by (simp add: D_step_def pool_lopsided_def Ann_def amp_def N_COINS_def float_op_def power_divide
      fl_round_numeral roundings_D_lopsided)

lemma D_moved_lopsided_2:
  "moved_less_than_1 (PFloat (Finite (5866754710595035 / 536870912))) (PFloat (Finite (2933381106538343 / 268435456))) = Inr False"
  by (simp add: moved_less_than_1_def float_op_def fsub_def fl_round_numeral fl_round_minus
      roundings_D_lopsided)

lemma D_step_lopsided_3:
  "D_step pool_lopsided (PFloat (Finite (5866754710595035 / 536870912))) = Inr (PFloat (Finite (5866754710594757 / 536870912)))"
  by (simp add: D_step_def pool_lopsided_def Ann_def amp_def N_COINS_def float_op_def power_divide
      fl_round_numeral roundings_D_lopsided)

lemma D_moved_lopsided_3:
  "moved_less_than_1 (PFloat (Finite (5866754710594757 / 536870912))) (PFloat (Finite (5866754710595035 / 536870912))) = Inr True"
  by (simp add: moved_less_than_1_def float_op_def fsub_def fl_round_numeral fl_round_minus
      roundings_D_lopsided)

lemma get_D_pool_lopsided: "get_D pool_lopsided = Inr (PFloat (Finite (5866754710594757 / 536870912)))"
  by (simp add: get_D_def pool_lopsided_fields
      D_loop_moves [OF _ D_step_lopsided_1 D_moved_lopsided_1]
      D_loop_moves [OF _ D_step_lopsided_2 D_moved_lopsided_2]
      D_loop_settles [OF _ D_step_lopsided_3 D_moved_lopsided_3]
      del: D_loop.simps)

lemma roundings_A:
  "fl_round (1866751 / 8589934592) = Finite (1866751 / 8589934592)"
  "fl_round (63494451993 / 4294967296) = Finite (63494451993 / 4294967296)"
  "fl_round (33121643502731 / 8589934592) = Finite (33121643502731 / 8589934592)"
  "fl_round (20000 / 3) = Finite (7330077518506667 / 1099511627776)"
  "fl_round (536962146057411 / 8589934592) = Finite (536962146057411 / 8589934592)"
  "fl_round (1145751298073129 / 4294967296) = Finite (1145751298073129 / 4294967296)"
  "fl_round (2868392661882615 / 4294967296) = Finite (2868392661882615 / 4294967296)"
  "fl_round (2157506027663112798208 / 2159659193662581) = Finite (8581370483757633 / 8589934592)"
  "fl_round (1078784729640451309568 / 1079861344057287) = Finite (134083913837881 / 134217728)"
  "fl_round (181178828582752616448 / 181356959155495) = Finite (4290748737264185 / 4294967296)"
  "fl_round (2451789997854449205248 / 2444764582894645) = Finite (8614619118031101 / 8589934592)"
  "fl_round (2159659193662581 / 2147483648) = Finite (2159659193662581 / 2147483648)"
  "fl_round (1079861344057287 / 1073741824) = Finite (1079861344057287 / 1073741824)"
  "fl_round (1107937918387399339 / 1099511627776) = Finite (8655764987401557 / 8589934592)"
  "fl_round (544070877466485 / 536870912) = Finite (544070877466485 / 536870912)"
  "fl_round (1912639584897373306880 / 1795257940483887) = Finite (142993457251383 / 134217728)"
  "fl_round (2444764582894645 / 2147483648) = Finite (2444764582894645 / 2147483648)"
  "fl_round (4302118445130983145472 / 3229454271425195) = Finite (5721541930117385 / 4294967296)"
  "fl_round (1795257940483887 / 1073741824) = Finite (1795257940483887 / 1073741824)"
  "fl_round (134083913837881 / 67108864) = Finite (134083913837881 / 67108864)"
  "fl_round (4290748737264185 / 2147483648) = Finite (4290748737264185 / 2147483648)"
  "fl_round (8614619118031101 / 4294967296) = Finite (8614619118031101 / 4294967296)"
  "fl_round (142993457251383 / 67108864) = Finite (142993457251383 / 67108864)"
  "fl_round (5721541930117385 / 2147483648) = Finite (5721541930117385 / 2147483648)"
  "fl_round (25818505958650325 / 8589934592) = Finite (6454626489662581 / 2147483648)"
  "fl_round (25818759936458297 / 8589934592) = Finite (3227344992057287 / 1073741824)"
  "fl_round (3229454271425195 / 1073741824) = Finite (3229454271425195 / 1073741824)"
  "fl_round (25885003223463759 / 8589934592) = Finite (1617812701466485 / 536870912)"
  "fl_round (26958927515578581 / 8589934592) = Finite (6739731878894645 / 2147483648)"
  "fl_round (31541932707871097 / 8589934592) = Finite (3942741588483887 / 1073741824)"
  "fl_round (43015503355401557 / 8589934592) = Finite (5376937919425195 / 1073741824)"
  "fl_round (20000000000000000 / 3002991) = Finite (6983544073225661 / 1048576)"
  "fl_round (17978495950084295918750570161 / 18014398509481984) = Finite (8175673406223857 / 8192)"
  "fl_round (18410524726334198079238483714225 / 18446744073709551616) = Finite (4087957689321397 / 4096)"
  "fl_round (1053469740069879357 / 1048576) = Finite (2057558086073983 / 2048)"
  "fl_round (1053500712539503293 / 1048576) = Finite (8230474316714869 / 8192)"
  "fl_round (74211662548746944462378803272201 / 73786976294838206464) = Finite (8239149645733129 / 8192)"
  "fl_round (1061594698727066173 / 1048576) = Finite (2073427145951301 / 2048)"
  "fl_round (20447128816703097465255412689 / 18014398509481984) = Finite (72642794239297 / 64)"
  "fl_round (1197163084889867709 / 1048576) = Finite (2338209150175523 / 2048)"
  "fl_round (32736042058091371298919879238225 / 18446744073709551616) = Finite (7268861525598107 / 4096)"
  "fl_round (1867812094626341053 / 1048576) = Finite (7296140994634145 / 4096)"
  "fl_round (4201287544073225661 / 1048576) = Finite (8205639734518019 / 2048)"
  "fl_round 8000000000000000000 = Finite 8000000000000000000"
  apply (rule fl_round_normal [where e = "- 13" and n = 8017634494775296]; simp add: pow2_def)
  apply (rule fl_round_normal [where e = 3 and n = 8322344811626496]; simp add: pow2_def)
  apply (rule fl_round_normal [where e = 11 and n = 8479140736699136]; simp add: pow2_def)
  apply (rule fl_round_normal [where e = 12 and n = 7330077518506667]; simp add: pow2_def)
  apply (rule fl_round_normal [where e = 15 and n = 8591394336918576]; simp add: pow2_def)
  apply (rule fl_round_normal [where e = 18 and n = 4583005192292516]; simp add: pow2_def)
  apply (rule fl_round_normal [where e = 19 and n = 5736785323765230]; simp add: pow2_def)
  apply (rule fl_round_normal [where e = 19 and n = 8581370483757633]; simp add: pow2_def)
  apply (rule fl_round_normal [where e = 19 and n = 8581370485624384]; simp add: pow2_def)
  apply (rule fl_round_normal [where e = 19 and n = 8581497474528370]; simp add: pow2_def)
  apply (rule fl_round_normal [where e = 19 and n = 8614619118031101]; simp add: pow2_def)
  apply (rule fl_round_normal [where e = 19 and n = 8638636774650324]; simp add: pow2_def)
  apply (rule fl_round_normal [where e = 19 and n = 8638890752458296]; simp add: pow2_def)
  apply (rule fl_round_normal [where e = 19 and n = 8655764987401557]; simp add: pow2_def)
  apply (rule fl_round_normal [where e = 19 and n = 8705134039463760]; simp add: pow2_def)
  apply (rule fl_round_normal [where e = 20 and n = 4575790632044256]; simp add: pow2_def)
  apply (rule fl_round_normal [where e = 20 and n = 4889529165789290]; simp add: pow2_def)
  apply (rule fl_round_normal [where e = 20 and n = 5721541930117385]; simp add: pow2_def)
  apply (rule fl_round_normal [where e = 20 and n = 7181031761935548]; simp add: pow2_def)
  apply (rule fl_round_normal [where e = 20 and n = 8581370485624384]; simp add: pow2_def)
  apply (rule fl_round_normal [where e = 20 and n = 8581497474528370]; simp add: pow2_def)
  apply (rule fl_round_normal [where e = 20 and n = 8614619118031101]; simp add: pow2_def)
  apply (rule fl_round_normal [where e = 21 and n = 4575790632044256]; simp add: pow2_def)
  apply (rule fl_round_normal [where e = 21 and n = 5721541930117385]; simp add: pow2_def)
  apply (rule fl_round_normal [where e = 21 and n = 6454626489662581]; simp add: pow2_def)
  apply (rule fl_round_normal [where e = 21 and n = 6454689984114574]; simp add: pow2_def)
  apply (rule fl_round_normal [where e = 21 and n = 6458908542850390]; simp add: pow2_def)
  apply (rule fl_round_normal [where e = 21 and n = 6471250805865940]; simp add: pow2_def)
  apply (rule fl_round_normal [where e = 21 and n = 6739731878894645]; simp add: pow2_def)
  apply (rule fl_round_normal [where e = 21 and n = 7885483176967774]; simp add: pow2_def)
  apply (rule fl_round_normal [where e = 22 and n = 5376937919425195]; simp add: pow2_def)
  apply (rule fl_round_normal [where e = 32 and n = 6983544073225661]; simp add: pow2_def)
  apply (rule fl_round_normal [where e = 39 and n = 8175673406223857]; simp add: pow2_def)
  apply (rule fl_round_normal [where e = 39 and n = 8175915378642794]; simp add: pow2_def)
  apply (rule fl_round_normal [where e = 39 and n = 8230232344295932]; simp add: pow2_def)
  apply (rule fl_round_normal [where e = 39 and n = 8230474316714869]; simp add: pow2_def)
  apply (rule fl_round_normal [where e = 39 and n = 8239149645733129]; simp add: pow2_def)
  apply (rule fl_round_normal [where e = 39 and n = 8293708583805204]; simp add: pow2_def)
  apply (rule fl_round_normal [where e = 40 and n = 4649138831315008]; simp add: pow2_def)
  apply (rule fl_round_normal [where e = 40 and n = 4676418300351046]; simp add: pow2_def)
  apply (rule fl_round_normal [where e = 40 and n = 7268861525598107]; simp add: pow2_def)
  apply (rule fl_round_normal [where e = 40 and n = 7296140994634145]; simp add: pow2_def)
  apply (rule fl_round_normal [where e = 41 and n = 8205639734518019]; simp add: pow2_def)
  apply (rule fl_round_normal [where e = 62 and n = 7812500000000000]; simp add: pow2_def)
  done

lemma y_step_A_1:
  "y_step (PFloat (Finite (6983544073225661 / 1048576))) (PFloat (Finite (8655764987401557 / 8589934592))) (PFloat (Finite 2000000)) (PFloat (Finite 2000000)) = Inr (PFloat (Finite (5721541930117385 / 4294967296)))"
  by (simp add: y_step_def float_op_def fsub_def power_divide fl_round_numeral fl_round_minus roundings_A)

lemma moved_A_1:
  "moved_less_than_1 (PFloat (Finite (5721541930117385 / 4294967296))) (PFloat (Finite 2000000)) = Inr False"
  by (simp add: moved_less_than_1_def float_op_def fsub_def fl_round_numeral fl_round_minus roundings_A)

lemma y_step_A_2:
  "y_step (PFloat (Finite (6983544073225661 / 1048576))) (PFloat (Finite (8655764987401557 / 8589934592))) (PFloat (Finite 2000000)) (PFloat (Finite (5721541930117385 / 4294967296))) = Inr (PFloat (Finite (142993457251383 / 134217728)))"
  by (simp add: y_step_def float_op_def fsub_def power_divide fl_round_numeral fl_round_minus roundings_A)

lemma moved_A_2:
  "moved_less_than_1 (PFloat (Finite (142993457251383 / 134217728))) (PFloat (Finite (5721541930117385 / 4294967296))) = Inr False"
  by (simp add: moved_less_than_1_def float_op_def fsub_def fl_round_numeral fl_round_minus roundings_A)

lemma y_step_A_3:
  "y_step (PFloat (Finite (6983544073225661 / 1048576))) (PFloat (Finite (8655764987401557 / 8589934592))) (PFloat (Finite 2000000)) (PFloat (Finite (142993457251383 / 134217728))) = Inr (PFloat (Finite (8614619118031101 / 8589934592)))"
  by (simp add: y_step_def float_op_def fsub_def power_divide fl_round_numeral fl_round_minus roundings_A)

lemma moved_A_3:
  "moved_less_than_1 (PFloat (Finite (8614619118031101 / 8589934592))) (PFloat (Finite (142993457251383 / 134217728))) = Inr False"
  by (simp add: moved_less_than_1_def float_op_def fsub_def fl_round_numeral fl_round_minus roundings_A)

lemma y_step_A_4:
  "y_step (PFloat (Finite (6983544073225661 / 1048576))) (PFloat (Finite (8655764987401557 / 8589934592))) (PFloat (Finite 2000000)) (PFloat (Finite (8614619118031101 / 8589934592))) = Inr (PFloat (Finite (4290748737264185 / 4294967296)))"
  by (simp add: y_step_def float_op_def fsub_def power_divide fl_round_numeral fl_round_minus roundings_A)

lemma moved_A_4:
  "moved_less_than_1 (PFloat (Finite (4290748737264185 / 4294967296))) (PFloat (Finite (8614619118031101 / 8589934592))) = Inr False"
  by (simp add: moved_less_than_1_def float_op_def fsub_def fl_round_numeral fl_round_minus roundings_A)

lemma y_step_A_5:
  "y_step (PFloat (Finite (6983544073225661 / 1048576))) (PFloat (Finite (8655764987401557 / 8589934592))) (PFloat (Finite 2000000)) (PFloat (Finite (4290748737264185 / 4294967296))) = Inr (PFloat (Finite (134083913837881 / 134217728)))"
  by (simp add: y_step_def float_op_def fsub_def power_divide fl_round_numeral fl_round_minus roundings_A)

lemma moved_A_5:
  "moved_less_than_1 (PFloat (Finite (134083913837881 / 134217728))) (PFloat (Finite (4290748737264185 / 4294967296))) = Inr False"
  by (simp add: moved_less_than_1_def float_op_def fsub_def fl_round_numeral fl_round_minus roundings_A)

lemma y_step_A_6:
  "y_step (PFloat (Finite (6983544073225661 / 1048576))) (PFloat (Finite (8655764987401557 / 8589934592))) (PFloat (Finite 2000000)) (PFloat (Finite (134083913837881 / 134217728))) = Inr (PFloat (Finite (8581370483757633 / 8589934592)))"
  by (simp add: y_step_def float_op_def fsub_def power_divide fl_round_numeral fl_round_minus roundings_A)

lemma moved_A_6:
  "moved_less_than_1 (PFloat (Finite (8581370483757633 / 8589934592))) (PFloat (Finite (134083913837881 / 134217728))) = Inr True"
  by (simp add: moved_less_than_1_def float_op_def fsub_def fl_round_numeral fl_round_minus roundings_A)

lemma y_loop_A:
  "y_loop 256 (PFloat (Finite (6983544073225661 / 1048576))) (PFloat (Finite (8655764987401557 / 8589934592))) (PFloat (Finite 2000000)) (PFloat (Finite 2000000)) = Inr (PFloat (Finite (8581370483757633 / 8589934592)))"
  by (simp add: y_loop_moves [OF _ y_step_A_1 moved_A_1]
      y_loop_moves [OF _ y_step_A_2 moved_A_2]
      y_loop_moves [OF _ y_step_A_3 moved_A_3]
      y_loop_moves [OF _ y_step_A_4 moved_A_4]
      y_loop_moves [OF _ y_step_A_5 moved_A_5]
      y_loop_settles [OF _ y_step_A_6 moved_A_6]
      del: y_loop.simps)

lemma get_y_out_A:
  "get_y_out pool_A [(''lovelace'', 1000)] ''token'' = Inr (PFloat (Finite (8581370483757633 / 8589934592)))"
  by (simp add: get_y_out_def get_D_pool_A pool_A_fields Ann_def amp_def N_COINS_def float_op_def power_divide
      fl_round_numeral roundings_A y_loop_A del: y_loop.simps)

lemma D_settled_pool_lopsided:
  "\<not> D_settled pool_lopsided (PInt 11000000) 1"
  "\<not> D_settled pool_lopsided (PInt 11000000) 2"
  "D_settled pool_lopsided (PInt 11000000) 3"
proof -
  note s1 = D_step_lopsided_1 and s2 = D_step_lopsided_2 and s3 = D_step_lopsided_3
  show "\<not> D_settled pool_lopsided (PInt 11000000) 1"
    unfolding D_settled_1 [OF s1] by (simp add: D_moved_lopsided_1)
  have "D_settled pool_lopsided (PInt 11000000) (Suc 1) \<longleftrightarrow> False"
    by (simp only: D_settled_shift [OF s1 order_refl] D_settled_1 [OF s2] D_moved_lopsided_2)
      simp
  then show "\<not> D_settled pool_lopsided (PInt 11000000) 2"
    by (simp add: numeral_2_eq_2)
  have "1 \<le> Suc 1" by simp
  then have "D_settled pool_lopsided (PInt 11000000) (Suc (Suc 1)) \<longleftrightarrow> True"
    by (simp only: D_settled_shift [OF s1] D_settled_shift [OF s2 order_refl] D_settled_1 [OF s3]
        D_moved_lopsided_3) simp
  then show "D_settled pool_lopsided (PInt 11000000) 3"
    by (simp add: numeral_3_eq_3)
qed

lemma D_stop_pool_lopsided: "D_stop pool_lopsided (PInt 11000000) 256 = 3"
proof (rule D_stop_eqI)
  show "D_settled pool_lopsided (PInt 11000000) 3" by (rule D_settled_pool_lopsided)
  show "\<forall>k. 1 \<le> k \<and> k < 3 \<longrightarrow> \<not> D_settled pool_lopsided (PInt 11000000) k"
  proof (intro allI impI)
    fix k :: nat
    assume "1 \<le> k \<and> k < 3"
    then have "k = 1 \<or> k = 2" by auto
    then show "\<not> D_settled pool_lopsided (PInt 11000000) k"
      using D_settled_pool_lopsided(1,2) by auto
  qed
qed simp_all

section \<open>The constant-product quote\<close>

text \<open>
  Claim C1. For a single-entry input \<open>{u: q}\<close> with \<open>u\<close> one of the pool's two units, the
  quote selects \<open>reserve_in\<close> and \<open>reserve_out\<close> by the side of \<open>u\<close> and returns a bag of
  the opposite unit holding \<open>numerator // denominator\<close>, the quotient rounded down: it is the
  largest integer \<open>a\<close> with \<open>a * denominator \<le> numerator\<close>. This holds for a fee in
  \<open>[0, 10000]\<close>, non-negative quantity and input reserve, and a denominator that is not zero.
\<close>

theorem amount_out_is_floor_quotient:
  fixes st :: pool_state and u :: string and q :: int
  defines "reserve_in \<equiv> if u = unit_a st then reserve_a st else reserve_b st"
  defines "reserve_out \<equiv> if u = unit_a st then reserve_b st else reserve_a st"
  defines "unit_out \<equiv> if u = unit_a st then unit_b st else unit_a st"
  defines "numerator \<equiv> q * (10000 - volume_fee st) * reserve_out"
  defines "denominator \<equiv> q * (10000 - volume_fee st) + reserve_in * 10000"
  assumes side: "u = unit_a st \<or> u = unit_b st"
    and fee: "0 \<le> volume_fee st" "volume_fee st \<le> 10000"
    and nonneg: "0 \<le> q" "0 \<le> reserve_in"
    and den: "denominator \<noteq> 0"
  shows "\<exists>a p. get_amount_out_ConstantProduct st [(u, q)] = Inr ([(unit_out, a)], p) \<and>
           a = numerator div denominator \<and>
           a * denominator \<le> numerator \<and> numerator < (a + 1) * denominator"
proof -
  have pos: "0 < denominator"
  proof -
    have "0 \<le> q * (10000 - volume_fee st)" using fee nonneg by simp
    then have "0 \<le> denominator" using nonneg unfolding denominator_def by linarith
    with den show ?thesis by linarith
  qed
  have "get_amount_out_ConstantProduct st [(u, q)] =
      swap_amounts reserve_in reserve_out unit_out (volume_fee st) q"
    unfolding reserve_in_def reserve_out_def unit_out_def
    using side by (rule get_amount_out_ConstantProduct_single)
  moreover have "\<exists>p. swap_amounts reserve_in reserve_out unit_out (volume_fee st) q =
      Inr ([(unit_out, numerator div denominator)], p)"
    unfolding numerator_def denominator_def
    using fee nonneg den [unfolded denominator_def] by (rule swap_amounts_returns)
  moreover have "numerator div denominator * denominator \<le> numerator"
    and "numerator < (numerator div denominator + 1) * denominator"
  proof -
    have m: "0 \<le> numerator mod denominator" "numerator mod denominator < denominator"
      using pos by simp_all
    have e: "numerator = numerator div denominator * denominator + numerator mod denominator"
      by simp
    show "numerator div denominator * denominator \<le> numerator"
      using m(1) e by linarith
    have "(numerator div denominator + 1) * denominator =
        numerator div denominator * denominator + denominator"
      by (simp add: algebra_simps)
    then show "numerator < (numerator div denominator + 1) * denominator"
      using m(2) e by linarith
  qed
  ultimately show ?thesis by auto
qed

theorem amount_out_is_floor_quotient_witness:
  "\<exists>p. get_amount_out_ConstantProduct pool_A [(''lovelace'', 1000)] = Inr ([(''token'', 996)], p)"
  using amount_out_is_floor_quotient [of "''lovelace''" pool_A 1000]
  by (simp add: pool_A_def)

text \<open>
  Claim C1, the excluded case. A zero quantity into a pool whose input-side reserve is
  zero makes the denominator zero, and \<^verbatim>\<open>numerator // denominator\<close> raises: no bag is returned.
\<close>

theorem amount_out_zero_denominator:
  "get_amount_out_ConstantProduct pool_one_sided [(''lovelace'', 0)] = Inl ZeroDivisionError"
  by (simp add: get_amount_out_ConstantProduct_def pool_one_sided_def swap_amounts_def
      int_floordiv_def)

text \<open>
  Claim C5. In a pool with positive reserves (and a fee in \<open>[0, 10000]\<close>) every input
  quantity that is not negative is quoted, the amount out is strictly less than
  \<open>reserve_out\<close>, and a larger input quantity never yields a smaller amount out.
\<close>

theorem amount_out_below_reserve_and_monotone:
  fixes st :: pool_state and u :: string and q1 q2 :: int
  defines "reserve_out \<equiv> if u = unit_a st then reserve_b st else reserve_a st"
  defines "unit_out \<equiv> if u = unit_a st then unit_b st else unit_a st"
  assumes side: "u = unit_a st \<or> u = unit_b st"
    and reserves: "0 < reserve_a st" "0 < reserve_b st"
    and fee: "0 \<le> volume_fee st" "volume_fee st \<le> 10000"
    and q: "0 \<le> q1" "q1 \<le> q2"
  shows "\<exists>a1 p1 a2 p2.
           get_amount_out_ConstantProduct st [(u, q1)] = Inr ([(unit_out, a1)], p1) \<and>
           get_amount_out_ConstantProduct st [(u, q2)] = Inr ([(unit_out, a2)], p2) \<and>
           a1 < reserve_out \<and> a2 < reserve_out \<and> a1 \<le> a2"
proof -
  define ri where "ri = (if u = unit_a st then reserve_a st else reserve_b st)"
  define fm where "fm = 10000 - volume_fee st"
  have ri: "0 < ri" and ro: "0 < reserve_out"
    using reserves by (simp_all add: ri_def reserve_out_def)
  have fm: "0 \<le> fm" using fee by (simp add: fm_def)
  have c: "0 < ri * 10000" using ri by simp
  have x1: "0 \<le> q1 * fm" and x12: "q1 * fm \<le> q2 * fm" and x2: "0 \<le> q2 * fm"
    using q fm by (simp_all add: mult_right_mono)
  have den: "q * fm + ri * 10000 \<noteq> 0" if "0 \<le> q * fm" for q
    using that c by linarith
  have quote: "\<exists>p. get_amount_out_ConstantProduct st [(u, q)] =
      Inr ([(unit_out, (q * fm * reserve_out) div (q * fm + ri * 10000))], p)" if "0 \<le> q" for q
  proof -
    have "0 \<le> q * fm" using that fm by simp
    then have d: "q * (10000 - volume_fee st) + ri * 10000 \<noteq> 0"
      using den by (simp add: fm_def)
    have "0 \<le> q" "0 \<le> ri" using that ri by simp_all
    from swap_amounts_returns [OF fee this d, of reserve_out unit_out]
    show ?thesis
      unfolding get_amount_out_ConstantProduct_single [OF side]
      by (simp add: fm_def ri_def reserve_out_def unit_out_def)
  qed
  have "0 \<le> q2" using q by simp
  from quote [OF q(1)] quote [OF this] obtain p1 p2 where
    g1: "get_amount_out_ConstantProduct st [(u, q1)] =
      Inr ([(unit_out, (q1 * fm * reserve_out) div (q1 * fm + ri * 10000))], p1)" and
    g2: "get_amount_out_ConstantProduct st [(u, q2)] =
      Inr ([(unit_out, (q2 * fm * reserve_out) div (q2 * fm + ri * 10000))], p2)"
    by blast
  have "(q1 * fm * reserve_out) div (q1 * fm + ri * 10000) < reserve_out"
    using x1 c ro by (rule amount_lt_reserve)
  moreover have "(q2 * fm * reserve_out) div (q2 * fm + ri * 10000) < reserve_out"
    using x2 c ro by (rule amount_lt_reserve)
  moreover have "(q1 * fm * reserve_out) div (q1 * fm + ri * 10000) \<le>
      (q2 * fm * reserve_out) div (q2 * fm + ri * 10000)"
    using x1 x12 c by (rule amount_mono) (use ro in simp)
  ultimately show ?thesis using g1 g2 by blast
qed

theorem amount_out_below_reserve_and_monotone_witness:
  "\<exists>a1 p1 a2 p2.
     get_amount_out_ConstantProduct pool_A [(''token'', 1000)] = Inr ([(''lovelace'', a1)], p1) \<and>
     get_amount_out_ConstantProduct pool_A [(''token'', 2000)] = Inr ([(''lovelace'', a2)], p2) \<and>
     a1 < 1000000 \<and> a2 < 1000000 \<and> a1 \<le> a2"
  using amount_out_below_reserve_and_monotone [of "''token''" pool_A 1000 2000]
  by (simp add: pool_A_def)

text \<open>
  Claim C7. When \<open>numerator // denominator\<close> is \<open>0\<close> the quote is the zero-quantity bag of
  the opposite unit together with price impact \<open>0\<close>, returned before the price-impact
  formula is reached: the result is there even where that formula would divide by zero,
  as for a zero input quantity. (The code returns the integer \<open>0\<close>, which Python holds
  equal to \<open>0.0\<close>.)
\<close>

theorem zero_output_short_circuit:
  fixes st :: pool_state and u :: string and q :: int
  defines "reserve_in \<equiv> if u = unit_a st then reserve_a st else reserve_b st"
  defines "reserve_out \<equiv> if u = unit_a st then reserve_b st else reserve_a st"
  defines "unit_out \<equiv> if u = unit_a st then unit_b st else unit_a st"
  defines "numerator \<equiv> q * (10000 - volume_fee st) * reserve_out"
  defines "denominator \<equiv> q * (10000 - volume_fee st) + reserve_in * 10000"
  assumes side: "u = unit_a st \<or> u = unit_b st"
    and den: "denominator \<noteq> 0"
    and zero: "numerator div denominator = 0"
  shows "get_amount_out_ConstantProduct st [(u, q)] = Inr ([(unit_out, 0)], PInt 0)"
  unfolding get_amount_out_ConstantProduct_single [OF side] unit_out_def
  using den zero unfolding numerator_def denominator_def reserve_in_def reserve_out_def
  by (rule swap_amounts_zero)

theorem zero_output_short_circuit_witness:
  "get_amount_out_ConstantProduct pool_A [(''lovelace'', 1)] = Inr ([(''token'', 0)], PInt 0) \<and>
   get_amount_out_ConstantProduct pool_A [(''lovelace'', 0)] = Inr ([(''token'', 0)], PInt 0) \<and>
   price_impact 1000000 1000000 0 9970 0 10000000000 = Inl ZeroDivisionError"
  using zero_output_short_circuit [of "''lovelace''" pool_A 1]
    zero_output_short_circuit [of "''lovelace''" pool_A 0]
  by (simp add: pool_A_def price_impact_def)

text \<open>
  Claim C6. When the amount out is not zero, the returned price impact is the quotient
  \<open>price_numerator / price_denominator\<close> of two exact integers, built from the exact
  integers \<open>numerator\<close>, \<open>denominator\<close> and \<open>fee_modifier\<close>, and rounded to a float once
  (\<^verbatim>\<open>OverflowError\<close> if that single rounding leaves the finite range); the divisor is
  not zero.
\<close>

theorem price_impact_is_rounded_ratio:
  fixes st :: pool_state and u :: string and q :: int
  defines "reserve_in \<equiv> if u = unit_a st then reserve_a st else reserve_b st"
  defines "reserve_out \<equiv> if u = unit_a st then reserve_b st else reserve_a st"
  defines "unit_out \<equiv> if u = unit_a st then unit_b st else unit_a st"
  defines "fee_modifier \<equiv> 10000 - volume_fee st"
  defines "numerator \<equiv> q * fee_modifier * reserve_out"
  defines "denominator \<equiv> q * fee_modifier + reserve_in * 10000"
  defines "price_numerator \<equiv>
    reserve_out * q * denominator * fee_modifier - numerator * reserve_in * 10000"
  defines "price_denominator \<equiv> reserve_out * q * denominator * 10000"
  assumes side: "u = unit_a st \<or> u = unit_b st"
    and den: "denominator \<noteq> 0"
    and nonzero: "numerator div denominator \<noteq> 0"
  shows "price_denominator \<noteq> 0 \<and>
         get_amount_out_ConstantProduct st [(u, q)] =
           (case fl_round (of_int price_numerator / of_int price_denominator) of
              Finite r \<Rightarrow> Inr ([(unit_out, numerator div denominator)], PFloat (Finite r))
            | _ \<Rightarrow> Inl OverflowError)"
proof -
  note d = den [unfolded denominator_def fee_modifier_def]
  note n = nonzero [unfolded numerator_def denominator_def fee_modifier_def]
  note p = swap_amounts_priced(1) [OF d n, of unit_out] swap_amounts_priced(2) [OF d n]
  have "price_denominator \<noteq> 0"
    unfolding price_denominator_def denominator_def fee_modifier_def by (rule p(2))
  moreover have "get_amount_out_ConstantProduct st [(u, q)] =
           (case fl_round (of_int price_numerator / of_int price_denominator) of
              Finite r \<Rightarrow> Inr ([(unit_out, numerator div denominator)], PFloat (Finite r))
            | _ \<Rightarrow> Inl OverflowError)"
    unfolding get_amount_out_ConstantProduct_single [OF side]
    unfolding price_numerator_def price_denominator_def numerator_def denominator_def
      fee_modifier_def reserve_in_def [symmetric] reserve_out_def [symmetric]
      unit_out_def [symmetric] p(1)
    by (simp add: finite_or_overflow_def split: pyfloat.splits)
  ultimately show ?thesis by simp
qed

theorem price_impact_is_rounded_ratio_witness:
  "get_amount_out_ConstantProduct pool_A [(''lovelace'', 1000)] =
     Inr ([(''token'', 996)], PFloat (Finite (4579491654311641 / 4611686018427387904)))"
proof -
  have r: "fl_round (994009 / 1000997000) = Finite (4579491654311641 / 4611686018427387904)"
    by (rule fl_round_normal [where e = "- 10" and n = 4579491654311641])
      (simp_all add: pow2_def)
  show ?thesis
    using price_impact_is_rounded_ratio [of "''lovelace''" pool_A 1000]
    by (simp add: pool_A_def r)
qed

text \<open>
  Claim C9. With positive reserves, a fee in \<open>[0, 10000)\<close>, a positive input quantity and
  a non-zero amount out, the exact price-impact quotient equals
  \<open>input_quantity * fee_modifier^2 / (denominator * 10000)\<close> and lies strictly between \<open>0\<close>
  and \<open>1\<close>; the returned float is that quotient rounded to the nearest float, and lies in
  the closed interval \<open>[0, 1]\<close>.
\<close>

theorem price_impact_in_unit_interval:
  fixes st :: pool_state and u :: string and q :: int
  defines "reserve_in \<equiv> if u = unit_a st then reserve_a st else reserve_b st"
  defines "reserve_out \<equiv> if u = unit_a st then reserve_b st else reserve_a st"
  defines "unit_out \<equiv> if u = unit_a st then unit_b st else unit_a st"
  defines "fee_modifier \<equiv> 10000 - volume_fee st"
  defines "numerator \<equiv> q * fee_modifier * reserve_out"
  defines "denominator \<equiv> q * fee_modifier + reserve_in * 10000"
  defines "price_numerator \<equiv>
    reserve_out * q * denominator * fee_modifier - numerator * reserve_in * 10000"
  defines "price_denominator \<equiv> reserve_out * q * denominator * 10000"
  defines "ratio \<equiv> (of_int (q * fee_modifier * fee_modifier) :: rat) / of_int (denominator * 10000)"
  assumes side: "u = unit_a st \<or> u = unit_b st"
    and reserves: "0 < reserve_a st" "0 < reserve_b st"
    and fee: "0 \<le> volume_fee st" "volume_fee st < 10000"
    and q: "0 < q"
    and nonzero: "numerator div denominator \<noteq> 0"
  shows "of_int price_numerator / of_int price_denominator = ratio \<and> 0 < ratio \<and> ratio < 1 \<and>
         (\<exists>r. get_amount_out_ConstantProduct st [(u, q)] =
                Inr ([(unit_out, numerator div denominator)], PFloat (Finite r)) \<and>
              fl_round ratio = Finite r \<and> 0 \<le> r \<and> r \<le> 1)"
proof -
  have ri: "0 < reserve_in" using reserves by (simp add: reserve_in_def)
  have fm: "0 < fee_modifier" "fee_modifier \<le> 10000" using fee by (simp_all add: fee_modifier_def)
  have "0 < q * fee_modifier" using q fm by simp
  then have den: "denominator \<noteq> 0" using ri unfolding denominator_def by linarith
  note d = den [unfolded denominator_def fee_modifier_def]
  note n = nonzero [unfolded numerator_def denominator_def fee_modifier_def]
  note p = swap_amounts_priced(1) [OF d n, of unit_out] swap_amounts_priced(3) [OF d n]
  have eq: "of_int price_numerator / of_int price_denominator = ratio"
    unfolding price_numerator_def price_denominator_def numerator_def denominator_def
      fee_modifier_def ratio_def by (rule p(2))
  have b: "0 < ratio" "ratio < 1"
    unfolding ratio_def denominator_def using q fm ri by (rule price_ratio_strict)+
  then obtain r where r: "fl_round ratio = Finite r" "0 \<le> r" "r \<le> 1"
    using fl_round_unit [of ratio] by auto
  have "get_amount_out_ConstantProduct st [(u, q)] =
      Inr ([(unit_out, numerator div denominator)], PFloat (Finite r))"
    unfolding get_amount_out_ConstantProduct_single [OF side]
    unfolding numerator_def denominator_def fee_modifier_def reserve_in_def [symmetric]
      reserve_out_def [symmetric] unit_out_def [symmetric] p
    using r(1) unfolding ratio_def denominator_def fee_modifier_def
    by simp
  with eq b r show ?thesis by blast
qed

theorem price_impact_in_unit_interval_witness:
  "\<exists>r. get_amount_out_ConstantProduct pool_A [(''lovelace'', 1000)] =
         Inr ([(''token'', 996)], PFloat (Finite r)) \<and> 0 \<le> r \<and> r \<le> 1"
  using price_impact_in_unit_interval [of "''lovelace''" pool_A 1000]
  by (auto simp add: pool_A_def)

text \<open>
  Claim C9, the bound that fails. The returned float does reach \<open>1\<close>: without fee the exact
  quotient is \<open>q / (q + reserve_in)\<close>, and for \<open>q = 2^60\<close> against a reserve of \<open>1\<close> it is
  nearer to \<open>1.0\<close> than to any float below.
\<close>

theorem price_impact_reaches_one:
  "0 < reserve_a pool_thin \<and> 0 < reserve_b pool_thin \<and>
   0 \<le> volume_fee pool_thin \<and> volume_fee pool_thin < 10000 \<and>
   get_amount_out_ConstantProduct pool_thin [(''lovelace'', 2 ^ 60)] =
     Inr ([(''token'', 1)], PFloat (Finite 1))"
proof -
  have r: "fl_round (1152921504606846976 / 1152921504606846977) = Finite 1"
    by (rule fl_round_normal [where e = "- 1" and n = "2 ^ 53"]) (simp_all add: pow2_def)
  show ?thesis
    by (simp add: pool_thin_def get_amount_out_ConstantProduct_def swap_amounts_def
        int_floordiv_def price_impact_def r)
qed

section \<open>The stable-swap quote\<close>

text \<open>
  Claim C2. \<^verbatim>\<open>_get_D\<close> returns \<open>0\<close> when \<open>S = reserve_a + reserve_b\<close> is \<open>0\<close>. Otherwise, with
  \<open>Ann = 75 * 4\<close>, it is the iteration from \<open>D = S\<close> taken to pass \<open>n\<close>, where
  \<open>1 \<le> n \<le> 256\<close>, no pass before \<open>n\<close> changed \<open>D\<close> by less than \<open>1\<close>, and pass \<open>n\<close> did so
  unless \<open>n\<close> is \<open>256\<close>: it stops at the first pass that moves \<open>D\<close> by less than \<open>1\<close>, and at
  pass 256 in any case. An exception of the arithmetic in a pass is the result (the
  iteration after a raising pass is that exception); no other exception is raised, none
  for a failure to converge.
\<close>

theorem get_D_iteration:
  fixes st :: pool_state
  defines "S \<equiv> reserve_a st + reserve_b st"
  defines "n \<equiv> D_stop st (PInt S) 256"
  shows "Ann = 75 * 4 \<and>
         get_D st = (if S = 0 then Inr (PInt 0) else D_iterate st (PInt S) n) \<and>
         1 \<le> n \<and> n \<le> 256 \<and>
         (\<forall>k. 1 \<le> k \<and> k < n \<longrightarrow> \<not> D_settled st (PInt S) k) \<and>
         (n = 256 \<or> D_settled st (PInt S) n) \<and>
         (\<forall>e. get_D st = Inl e \<longrightarrow> e = ZeroDivisionError \<or> e = OverflowError)"
proof -
  have pos: "0 < (256 :: nat)" by simp
  have "Ann = 75 * 4" by (simp add: Ann_def amp_def N_COINS_def)
  moreover have "D_loop 256 st (PInt S) = D_iterate st (PInt S) n"
    unfolding n_def using pos by (rule D_loop_eq_iterate)
  then have "get_D st = (if S = 0 then Inr (PInt 0) else D_iterate st (PInt S) n)"
    by (simp add: get_D_def S_def [symmetric] del: D_loop.simps)
  moreover note D_stop_props [OF pos, of st "PInt S", folded n_def]
  moreover have "e = ZeroDivisionError \<or> e = OverflowError" if "get_D st = Inl e" for e
    using that by (rule get_D_Inl)
  ultimately show ?thesis by blast
qed

theorem get_D_iteration_witness:
  "get_D pool_empty = Inr (PInt 0) \<and>
   D_stop pool_lopsided (PInt 11000000) 256 = 3 \<and>
   D_iterate pool_lopsided (PInt 11000000) 3 =
     Inr (PFloat (Finite (5866754710594757 / 536870912))) \<and>
   get_D pool_lopsided = Inr (PFloat (Finite (5866754710594757 / 536870912))) \<and>
   D_settled pool_lopsided (PInt 11000000) 3"
proof -
  have s: "reserve_a pool_lopsided + reserve_b pool_lopsided = 11000000"
    and e: "reserve_a pool_empty + reserve_b pool_empty = 0"
    by (simp_all add: pool_lopsided_def pool_empty_def)
  have "get_D pool_empty = Inr (PInt 0)"
    using get_D_iteration [of pool_empty] unfolding e by simp
  moreover have "get_D pool_lopsided = D_iterate pool_lopsided (PInt 11000000) 3"
    and "D_settled pool_lopsided (PInt 11000000) 3"
    using get_D_iteration [of pool_lopsided] unfolding s D_stop_pool_lopsided
    by simp_all
  ultimately show ?thesis
    using get_D_pool_lopsided D_stop_pool_lopsided by simp
qed

text \<open>
  Claim C10. In a pool where exactly one reserve is zero, \<^verbatim>\<open>_get_D\<close> raises
  \<^verbatim>\<open>ZeroDivisionError\<close> (in its first pass, dividing by \<open>4 * reserve_a * reserve_b = 0\<close>), and
  since \<^verbatim>\<open>_get_y\<close> computes \<open>D\<close> before it checks its arguments, every call of \<^verbatim>\<open>_get_y\<close>
  raises it too, whatever the input bag and the output unit.
\<close>

theorem get_D_one_sided_raises:
  assumes "reserve_a st = 0 \<and> reserve_b st \<noteq> 0 \<or> reserve_a st \<noteq> 0 \<and> reserve_b st = 0"
  shows "get_D st = Inl ZeroDivisionError \<and>
         (\<forall>in_assets out_unit. get_y st in_assets out_unit = Inl ZeroDivisionError)"
proof -
  have S: "reserve_a st + reserve_b st \<noteq> 0" and P: "reserve_a st * reserve_b st = 0"
    using assms by auto
  have "D_step st (PInt (reserve_a st + reserve_b st)) = Inl ZeroDivisionError"
    using P by (simp add: D_step_def Let_def mult.assoc)
  then have "D_loop 256 st (PInt (reserve_a st + reserve_b st)) = Inl ZeroDivisionError"
    unfolding D_loop_256 by (rule D_loop_first_raises)
  then have D: "get_D st = Inl ZeroDivisionError"
    using S by (simp add: get_D_def del: D_loop.simps)
  then show ?thesis by (simp add: get_y_split get_y_out_def)
qed

theorem get_D_one_sided_raises_witness:
  "get_D pool_one_sided = Inl ZeroDivisionError \<and>
   get_y pool_one_sided [(''lovelace'', 1), (''token'', 1)] ''token'' = Inl ZeroDivisionError \<and>
   get_y pool_one_sided [(''ada'', 1)] ''nothing'' = Inl ZeroDivisionError"
  using get_D_one_sided_raises [of pool_one_sided]
  by (simp add: pool_one_sided_def)

text \<open>
  Claim C3. For a single-entry input \<open>{u: q}\<close> with \<open>u\<close> one of the pool's units, the stable-swap
  quote raises what \<^verbatim>\<open>_get_y\<close> raises; and when \<^verbatim>\<open>_get_y\<close> returns, it returns the single-entry
  bag \<open>{out_unit: int(out)}\<close> of the opposite unit, \<open>out\<close> being the post-trade reserve its
  loop ends with (\<^verbatim>\<open>int\<close> is the floor for a non-negative \<open>out\<close>), and the quote is the pair
  of the bag \<open>{out_unit: reserve(out_unit) - int(out)}\<close> and the price impact \<open>0\<close>. The
  second component of every quote is \<open>0\<close>.
\<close>

theorem stable_swap_amount_out:
  fixes st :: pool_state and u :: string and q :: int
  defines "out_unit \<equiv> if u = unit_a st then unit_b st else unit_a st"
  defines "out_reserve \<equiv> if u = unit_a st then reserve_b st else reserve_a st"
  assumes side: "u = unit_a st \<or> u = unit_b st"
  shows "(\<forall>e. get_y st [(u, q)] out_unit = Inl e \<longrightarrow>
            get_amount_out_StableSwap st [(u, q)] = Inl e) \<and>
         (\<forall>projected. get_y st [(u, q)] out_unit = Inr projected \<longrightarrow>
            (\<exists>out y. get_y_out st [(u, q)] out_unit = Inr out \<and> py_int out = Inr y \<and>
                     (\<forall>a. out = PFloat (Finite a) \<and> 0 \<le> a \<longrightarrow> y = \<lfloor>a\<rfloor>) \<and>
                     projected = [(out_unit, y)] \<and>
                     get_amount_out_StableSwap st [(u, q)] =
                       Inr ([(out_unit, out_reserve - y)], PInt 0))) \<and>
         (\<forall>bag p. get_amount_out_StableSwap st [(u, q)] = Inr (bag, p) \<longrightarrow> p = PInt 0)"
proof -
  have ou: "(if u = unit_b st then unit_a st else unit_b st) = out_unit"
    using side by (auto simp: out_unit_def)
  have ores: "(if out_unit = unit_b st then reserve_b st else reserve_a st) = out_reserve"
    using side by (auto simp: out_unit_def out_reserve_def)
  note g = get_amount_out_StableSwap_single [of st u q, unfolded ou ores]
  have "get_amount_out_StableSwap st [(u, q)] = Inl e" if "get_y st [(u, q)] out_unit = Inl e" for e
    using that by (simp add: g)
  moreover have "\<exists>out y. get_y_out st [(u, q)] out_unit = Inr out \<and> py_int out = Inr y \<and>
                     (\<forall>a. out = PFloat (Finite a) \<and> 0 \<le> a \<longrightarrow> y = \<lfloor>a\<rfloor>) \<and>
                     projected = [(out_unit, y)] \<and>
                     get_amount_out_StableSwap st [(u, q)] =
                       Inr ([(out_unit, out_reserve - y)], PInt 0)"
    if "get_y st [(u, q)] out_unit = Inr projected" for projected
  proof -
    from get_y_Inr [OF that] obtain out y where
      o: "get_y_out st [(u, q)] out_unit = Inr out" "py_int out = Inr y" "projected = [(out_unit, y)]"
      by blast
    have "get_amount_out_StableSwap st [(u, q)] = Inr ([(out_unit, out_reserve - y)], PInt 0)"
      using that o(3) by (simp add: g)
    moreover have "\<forall>a. out = PFloat (Finite a) \<and> 0 \<le> a \<longrightarrow> y = \<lfloor>a\<rfloor>"
      using o(2) by (auto dest: py_int_floor)
    ultimately show ?thesis using o by blast
  qed
  moreover have "p = PInt 0" if "get_amount_out_StableSwap st [(u, q)] = Inr (bag, p)" for bag p
    using that by (auto simp: g rbind_eq_Inr_iff)
  ultimately show ?thesis by blast
qed

theorem stable_swap_amount_out_witness:
  "get_y pool_A [(''lovelace'', 1000)] ''token'' = Inr [(''token'', 999003)] \<and>
   get_amount_out_StableSwap pool_A [(''lovelace'', 1000)] = Inr ([(''token'', 997)], PInt 0)"
proof -
  have "\<lfloor>8581370483757633 / 8589934592 :: rat\<rfloor> = 999003"
    by (simp add: floor_eq_iff)
  then have y: "get_y pool_A [(''lovelace'', 1000)] ''token'' = Inr [(''token'', 999003)]"
    by (simp add: get_y_split get_y_out_A)
  show ?thesis
    using stable_swap_amount_out [of "''lovelace''" pool_A 1000] y
    unfolding pool_A_fields by auto
qed

text \<open>
  Claim C4. The constant-product quote fails with an \<open>InvalidInput\<close> condition exactly when
  the bag does not have exactly one entry or its unit is neither \<open>unit_a\<close> nor \<open>unit_b\<close>.
  The stable-swap quote fails with one exactly when \<^verbatim>\<open>_get_D\<close> returns and the bag has more
  than one entry or a single entry of a foreign unit. On a bag with exactly one entry
  whose unit belongs to the pair, neither quote raises an \<open>InvalidInput\<close> condition.
\<close>

theorem invalid_input_conditions:
  "((\<exists>e. get_amount_out_ConstantProduct st asset = Inl e \<and> InvalidInput e) \<longleftrightarrow>
      (length asset \<noteq> 1 \<or> (\<exists>u q. asset = [(u, q)] \<and> u \<noteq> unit_a st \<and> u \<noteq> unit_b st))) \<and>
   ((\<exists>e. get_amount_out_StableSwap st asset = Inl e \<and> InvalidInput e) \<longleftrightarrow>
      (\<exists>D. get_D st = Inr D) \<and>
      (1 < length asset \<or> (\<exists>u q. asset = [(u, q)] \<and> u \<noteq> unit_a st \<and> u \<noteq> unit_b st))) \<and>
   (\<forall>u q. asset = [(u, q)] \<and> (u = unit_a st \<or> u = unit_b st) \<longrightarrow>
      (\<forall>e. get_amount_out_ConstantProduct st asset = Inl e \<or>
           get_amount_out_StableSwap st asset = Inl e \<longrightarrow> \<not> InvalidInput e))"
proof -
  note cp = ConstantProduct_invalid_iff [of st asset] and ss = StableSwap_invalid_iff [of st asset]
  have "\<not> InvalidInput e"
    if "asset = [(u, q)]" "u = unit_a st \<or> u = unit_b st"
      "get_amount_out_ConstantProduct st asset = Inl e \<or> get_amount_out_StableSwap st asset = Inl e"
    for u q e
    using that cp ss by auto
  with cp ss show ?thesis by blast
qed

theorem invalid_input_conditions_witness:
  "(\<exists>e. get_amount_out_ConstantProduct pool_A [(''lovelace'', 1), (''token'', 1)] = Inl e \<and>
        InvalidInput e) \<and>
   (\<exists>e. get_amount_out_StableSwap pool_A [(''lovelace'', 1), (''token'', 1)] = Inl e \<and>
        InvalidInput e) \<and>
   (\<exists>e. get_amount_out_StableSwap pool_A [(''other'', 1)] = Inl e \<and> InvalidInput e) \<and>
   \<not> (\<exists>e. (get_amount_out_ConstantProduct pool_A [(''lovelace'', 1000)] = Inl e \<or>
             get_amount_out_StableSwap pool_A [(''lovelace'', 1000)] = Inl e) \<and>
            InvalidInput e)"
proof -
  have u: "unit_a pool_A = ''lovelace''" "unit_b pool_A = ''token''" by (simp_all add: pool_A_def)
  show ?thesis
    using invalid_input_conditions [of pool_A "[(''lovelace'', 1), (''token'', 1)]"]
      invalid_input_conditions [of pool_A "[(''other'', 1)]"]
      invalid_input_conditions [of pool_A "[(''lovelace'', 1000)]"]
      get_D_pool_A
    unfolding u by auto
qed

text \<open>
  Claim C4, where it fails as stated. In a pool with exactly one empty reserve the
  stable-swap quote of a bag with two entries raises \<^verbatim>\<open>ZeroDivisionError\<close>, not an
  \<open>InvalidInput\<close> condition: \<open>D\<close> is computed before the bag is checked.
\<close>

theorem invalid_bag_division_by_zero_first:
  "1 < length [(''lovelace'', 1 :: int), (''token'', 1)] \<and>
   get_amount_out_StableSwap pool_one_sided [(''lovelace'', 1), (''token'', 1)] =
     Inl ZeroDivisionError \<and>
   \<not> InvalidInput ZeroDivisionError"
proof -
  have "get_D pool_one_sided = Inl ZeroDivisionError"
  proof -
    have "D_step pool_one_sided (PInt 5) = Inl ZeroDivisionError"
      by (simp add: D_step_def pool_one_sided_def)
    then have "D_loop 256 pool_one_sided (PInt 5) = Inl ZeroDivisionError"
      unfolding D_loop_256 by (rule D_loop_first_raises)
    then show ?thesis by (simp add: get_D_def pool_one_sided_def del: D_loop.simps)
  qed
  then have "get_y pool_one_sided [(''lovelace'', 1), (''token'', 1)] ''token'' = Inl ZeroDivisionError"
    by (rule get_y_D_raises)
  then show ?thesis
    by (simp add: get_amount_out_StableSwap_def pool_one_sided_def)
qed

text \<open>
  Claim C8. In the empty pool \<^verbatim>\<open>_get_D\<close> returns \<open>0\<close>, and \<^verbatim>\<open>_get_y\<close> on a single-entry bag
  of a pool unit, for an output unit of the pool and a fee-adjusted input
  \<open>q * (10000 - volume_fee)\<close> that is not zero, divides by nothing that is zero: it returns
  the bag \<open>{out_unit: 0}\<close> (or raises \<^verbatim>\<open>OverflowError\<close>, when the input exceeds the floats).
\<close>

theorem empty_pool_get_y:
  assumes "reserve_a st = 0" "reserve_b st = 0"
    and "u = unit_a st \<or> u = unit_b st" "out_unit = unit_a st \<or> out_unit = unit_b st"
    and "q * (10000 - volume_fee st) \<noteq> 0"
  shows "get_D st = Inr (PInt 0) \<and>
         (get_y st [(u, q)] out_unit = Inr [(out_unit, 0)] \<or>
          get_y st [(u, q)] out_unit = Inl OverflowError)"
  using get_D_empty [OF assms(1,2)] get_y_out_empty [OF assms]
  by (auto simp: get_y_split)

theorem empty_pool_get_y_witness:
  "get_D pool_empty = Inr (PInt 0) \<and>
   get_y pool_empty [(''lovelace'', 1000)] ''token'' = Inr [(''token'', 0)]"
  using empty_pool_get_y [of pool_empty "''lovelace''" "''token''" 1000] get_y_out_empty_1000
  by (simp add: pool_empty_def get_y_split)

text \<open>
  Claim C8, the excluded case. With an input quantity of \<open>0\<close> the post-trade input reserve
  of the empty pool is \<open>0.0\<close>, and \<^verbatim>\<open>c = D**3 / (N_COINS**2 * Ann * in_reserve)\<close> raises
  \<^verbatim>\<open>ZeroDivisionError\<close>.
\<close>

theorem empty_pool_zero_input_raises:
  "get_D pool_empty = Inr (PInt 0) \<and>
   get_y pool_empty [(''lovelace'', 0)] ''token'' = Inl ZeroDivisionError"
proof -
  have D: "get_D pool_empty = Inr (PInt 0)" by (simp add: get_D_empty pool_empty_def)
  have "get_y_out pool_empty [(''lovelace'', 0)] ''token'' = Inl ZeroDivisionError"
    unfolding get_y_out_def D
    by (simp add: pool_empty_def float_op_def Ann_def amp_def N_COINS_def fl_round_numeral
        del: y_loop.simps)
  then show ?thesis using D by (simp add: get_y_split)
qed

end
